theory Spec2Isabelle
  imports Main "HOL-Library.Word" "HOL-Library.AList" "HOL-Library.List_Lexorder"
begin

section \<open>JavaScript strings\<close>

text \<open>
  A JavaScript string is a sequence of UTF-16 code units. ASCII literals are written
  with \<open>ustr\<close>; single code units are written as hexadecimal numerals.
\<close>

type_synonym js_string = "16 word list"

definition ustr :: "string \<Rightarrow> js_string" where
  "ustr s = map (\<lambda>c. of_nat (of_char c)) s"

text \<open>
  \<open>String.prototype.trim\<close> removes WhiteSpace and LineTerminator code points from both
  ends: TAB, LF, VT, FF, CR, SP, NBSP, U+1680, U+2000..U+200A, U+2028, U+2029, U+202F,
  U+205F, U+3000 (the ideographic space) and U+FEFF.
\<close>

definition is_white_space :: "16 word \<Rightarrow> bool" where
  "is_white_space c =
     (c = 0x09 \<or> c = 0x0A \<or> c = 0x0B \<or> c = 0x0C \<or> c = 0x0D \<or> c = 0x20 \<or> c = 0xA0
      \<or> c = 0x1680 \<or> (0x2000 \<le> c \<and> c \<le> 0x200A) \<or> c = 0x2028 \<or> c = 0x2029
      \<or> c = 0x202F \<or> c = 0x205F \<or> c = 0x3000 \<or> c = 0xFEFF)"

definition trim :: "js_string \<Rightarrow> js_string" where
  "trim s = rev (dropWhile is_white_space (rev (dropWhile is_white_space s)))"

definition is_lead :: "16 word \<Rightarrow> bool" where
  "is_lead c = (0xD800 \<le> c \<and> c \<le> 0xDBFF)"

definition is_trail :: "16 word \<Rightarrow> bool" where
  "is_trail c = (0xDC00 \<le> c \<and> c \<le> 0xDFFF)"

text \<open>
  Writing a string to a file as UTF-8 and reading it back keeps every code unit except
  a surrogate that is not part of a pair, which comes back as U+FFFD.
\<close>

fun toWellFormed :: "js_string \<Rightarrow> js_string" where
  "toWellFormed [] = []"
| "toWellFormed (c # cs) =
     (if is_lead c then
        (case cs of
           [] \<Rightarrow> [0xFFFD]
         | d # ds \<Rightarrow> if is_trail d then c # d # toWellFormed ds
                     else 0xFFFD # toWellFormed cs)
      else if is_trail c then 0xFFFD # toWellFormed cs
      else c # toWellFormed cs)"

section \<open>Request validation (the schemas of part 7 of the server)\<close>

text \<open>
  The schema validator counts the length of a string in code points: a surrogate pair
  counts once.
\<close>

fun ucs2length :: "js_string \<Rightarrow> nat" where
  "ucs2length [] = 0"
| "ucs2length [c] = 1"
| "ucs2length (c # d # cs) =
     (if is_lead c \<and> is_trail d then Suc (ucs2length cs) else Suc (ucs2length (d # cs)))"

text \<open>
  \<open>memoBodySchema\<close>, for a body whose \<open>title\<close> and \<open>content\<close> are strings:
  title has \<open>minLength 1\<close>, \<open>maxLength 200\<close> and the pattern \<open>^[^<>]*$\<close>;
  content has \<open>minLength 1\<close> and \<open>maxLength 5000\<close>.
\<close>

definition title_ok :: "js_string \<Rightarrow> bool" where
  "title_ok t = (1 \<le> ucs2length t \<and> ucs2length t \<le> 200 \<and> 0x3C \<notin> set t \<and> 0x3E \<notin> set t)"

definition content_ok :: "js_string \<Rightarrow> bool" where
  "content_ok c = (1 \<le> ucs2length c \<and> ucs2length c \<le> 5000)"

definition memoBodySchema :: "js_string \<Rightarrow> js_string \<Rightarrow> bool" where
  "memoBodySchema t c = (title_ok t \<and> content_ok c)"

definition is_digit :: "16 word \<Rightarrow> bool" where
  "is_digit c = (0x30 \<le> c \<and> c \<le> 0x39)"

text \<open>\<open>idParamSchema\<close>: the pattern \<open>^[0-9]+$\<close>.\<close>

definition idParamSchema :: "js_string \<Rightarrow> bool" where
  "idParamSchema s = (s \<noteq> [] \<and> list_all is_digit s)"

definition digits_val :: "js_string \<Rightarrow> nat" where
  "digits_val ds = foldl (\<lambda>a c. 10 * a + (unat c - 48)) 0 ds"

text \<open>
  \<open>parseInt\<close> is only applied to a parameter that passed \<open>idParamSchema\<close>, a
  non-empty string of decimal digits; numbers are exact integers here.
\<close>

definition parseInt :: "js_string \<Rightarrow> int" where
  "parseInt s = int (digits_val (takeWhile is_digit s))"

section \<open>JSON values, \<open>JSON.stringify\<close> and \<open>JSON.parse\<close>\<close>

text \<open>
  The values \<open>JSON.parse\<close> can return. Numbers are exact: \<open>JNum i\<close> is the integer
  \<open>i\<close>, and \<open>JReal m e\<close> is the number \<open>m * 10^e\<close> for a literal whose value is
  not an integer (floating-point rounding is left out; the application itself only
  produces integer identifiers, and these are taken to stay in the range where
  JavaScript numbers are exact). An object is the list of its own properties in
  insertion order (the special place JavaScript gives to property names that look
  like array indices is left out; a memo has none).
\<close>

datatype json =
    JNull
  | JBool bool
  | JNum int
  | JReal int int
  | JStr js_string
  | JArr "json list"
  | JObj "(js_string \<times> json) list"

subsection \<open>\<open>JSON.stringify(value, null, 2)\<close>\<close>

definition hexdigit :: "nat \<Rightarrow> 16 word" where
  "hexdigit d = (if d < 10 then of_nat (48 + d) else of_nat (87 + d))"

definition UnicodeEscape :: "16 word \<Rightarrow> js_string" where
  "UnicodeEscape c =
     [0x5C, 0x75, hexdigit (unat c div 4096), hexdigit (unat c div 256 mod 16),
      hexdigit (unat c div 16 mod 16), hexdigit (unat c mod 16)]"

text \<open>
  The characters of a quoted string: the two-character escapes for backspace, tab,
  line feed, form feed, carriage return, the quote and the backslash; a \<open>\u\<close> escape
  for the other control characters and for a surrogate outside a pair.
\<close>

fun QuoteChars :: "js_string \<Rightarrow> js_string" where
  "QuoteChars [] = []"
| "QuoteChars (c # cs) =
     (if c = 0x08 then [0x5C, 0x62] @ QuoteChars cs
      else if c = 0x09 then [0x5C, 0x74] @ QuoteChars cs
      else if c = 0x0A then [0x5C, 0x6E] @ QuoteChars cs
      else if c = 0x0C then [0x5C, 0x66] @ QuoteChars cs
      else if c = 0x0D then [0x5C, 0x72] @ QuoteChars cs
      else if c = 0x22 then [0x5C, 0x22] @ QuoteChars cs
      else if c = 0x5C then [0x5C, 0x5C] @ QuoteChars cs
      else if c < 0x20 then UnicodeEscape c @ QuoteChars cs
      else if is_lead c then
        (case cs of
           [] \<Rightarrow> UnicodeEscape c
         | d # ds \<Rightarrow> if is_trail d then c # d # QuoteChars ds
                     else UnicodeEscape c @ QuoteChars cs)
      else if is_trail c then UnicodeEscape c @ QuoteChars cs
      else c # QuoteChars cs)"

definition QuoteJSONString :: "js_string \<Rightarrow> js_string" where
  "QuoteJSONString s = [0x22] @ QuoteChars s @ [0x22]"

function digits :: "nat \<Rightarrow> js_string" where
  "digits n =
     (if n < 10 then [of_nat (48 + n)] else digits (n div 10) @ [of_nat (48 + n mod 10)])"
  by pat_completeness auto
termination
  by (relation "measure (\<lambda>n. n)") auto

declare digits.simps [simp del]

definition NumberToString :: "int \<Rightarrow> js_string" where
  "NumberToString i = (if i < 0 then 0x2D # digits (nat (- i)) else digits (nat i))"

definition newline :: "nat \<Rightarrow> js_string" where
  "newline ind = 0x0A # replicate ind 0x20"

text \<open>
  The serialization with a gap of two spaces; \<open>ind\<close> is the indentation of the
  enclosing line. An empty array is \<open>[]\<close> and an empty object \<open>{}\<close>; otherwise every
  element stands on a line of its own, indented two columns further. An integer is
  written in decimal digits; a \<open>JReal m e\<close> is written as \<open>m\<close>, \<open>e\<close> and the exponent
  (JavaScript would print the shortest decimal of the rounded number instead).
\<close>

fun SerializeJSON :: "nat \<Rightarrow> json \<Rightarrow> js_string"
  and SerializeElements :: "nat \<Rightarrow> json list \<Rightarrow> js_string"
  and SerializeMembers :: "nat \<Rightarrow> (js_string \<times> json) list \<Rightarrow> js_string"
where
  "SerializeJSON ind JNull = ustr ''null''"
| "SerializeJSON ind (JBool b) = (if b then ustr ''true'' else ustr ''false'')"
| "SerializeJSON ind (JNum i) = NumberToString i"
| "SerializeJSON ind (JReal m e) = NumberToString m @ [0x65] @ NumberToString e"
| "SerializeJSON ind (JStr s) = QuoteJSONString s"
| "SerializeJSON ind (JArr []) = ustr ''[]''"
| "SerializeJSON ind (JArr (x # xs)) =
     [0x5B] @ SerializeElements (ind + 2) (x # xs) @ newline ind @ [0x5D]"
| "SerializeJSON ind (JObj []) = ustr ''{}''"
| "SerializeJSON ind (JObj (p # ps)) =
     [0x7B] @ SerializeMembers (ind + 2) (p # ps) @ newline ind @ [0x7D]"
| "SerializeElements ind [] = []"
| "SerializeElements ind [x] = newline ind @ SerializeJSON ind x"
| "SerializeElements ind (x # y # ys) =
     newline ind @ SerializeJSON ind x @ [0x2C] @ SerializeElements ind (y # ys)"
| "SerializeMembers ind [] = []"
| "SerializeMembers ind [(k, v)] =
     newline ind @ QuoteJSONString k @ [0x3A, 0x20] @ SerializeJSON ind v"
| "SerializeMembers ind ((k, v) # q # qs) =
     newline ind @ QuoteJSONString k @ [0x3A, 0x20] @ SerializeJSON ind v @ [0x2C]
       @ SerializeMembers ind (q # qs)"

definition JSON_stringify :: "json \<Rightarrow> js_string" where
  "JSON_stringify v = SerializeJSON 0 v"

subsection \<open>\<open>JSON.parse\<close>\<close>

definition is_json_ws :: "16 word \<Rightarrow> bool" where
  "is_json_ws c = (c = 0x20 \<or> c = 0x09 \<or> c = 0x0A \<or> c = 0x0D)"

definition skip_ws :: "js_string \<Rightarrow> js_string" where
  "skip_ws s = dropWhile is_json_ws s"

definition hexval :: "16 word \<Rightarrow> nat option" where
  "hexval c =
     (if 0x30 \<le> c \<and> c \<le> 0x39 then Some (unat c - 48)
      else if 0x61 \<le> c \<and> c \<le> 0x66 then Some (unat c - 87)
      else if 0x41 \<le> c \<and> c \<le> 0x46 then Some (unat c - 55)
      else None)"

definition simple_escape :: "16 word \<Rightarrow> 16 word option" where
  "simple_escape e =
     (if e = 0x22 then Some 0x22
      else if e = 0x5C then Some 0x5C
      else if e = 0x2F then Some 0x2F
      else if e = 0x62 then Some 0x08
      else if e = 0x66 then Some 0x0C
      else if e = 0x6E then Some 0x0A
      else if e = 0x72 then Some 0x0D
      else if e = 0x74 then Some 0x09
      else None)"

definition hex4 :: "js_string \<Rightarrow> 16 word option" where
  "hex4 hs =
     (case map hexval hs of
        [Some a, Some b, Some c, Some d] \<Rightarrow> Some (of_nat (((a * 16 + b) * 16 + c) * 16 + d))
      | _ \<Rightarrow> None)"

definition cons_result :: "'a \<Rightarrow> ('a list \<times> 'b) option \<Rightarrow> ('a list \<times> 'b) option" where
  "cons_result x r = (case r of None \<Rightarrow> None | Some (xs, rest) \<Rightarrow> Some (x # xs, rest))"

text \<open>The characters of a string literal after its opening quote, up to the closing one.\<close>

fun parse_chars :: "js_string \<Rightarrow> (js_string \<times> js_string) option" where
  "parse_chars [] = None"
| "parse_chars (c # cs) =
     (if c = 0x22 then Some ([], cs)
      else if c = 0x5C then
        (case cs of
           [] \<Rightarrow> None
         | e # es \<Rightarrow>
             if e = 0x75 then
               (case hex4 (take 4 es) of
                  None \<Rightarrow> None
                | Some u \<Rightarrow> cons_result u (parse_chars (drop 4 es)))
             else
               (case simple_escape e of
                  None \<Rightarrow> None
                | Some u \<Rightarrow> cons_result u (parse_chars es)))
      else if c < 0x20 then None
      else cons_result c (parse_chars cs))"

text \<open>
  A number literal: an optional minus sign, an integer part without a leading zero, an
  optional fraction and an optional exponent.
\<close>

definition parse_number :: "js_string \<Rightarrow> (json \<times> js_string) option" where
  "parse_number s =
     (let neg = (s \<noteq> [] \<and> hd s = 0x2D);
          s1 = (if neg then tl s else s);
          ip = takeWhile is_digit s1;
          s2 = dropWhile is_digit s1;
          has_frac = (s2 \<noteq> [] \<and> hd s2 = 0x2E);
          fp = (if has_frac then takeWhile is_digit (tl s2) else []);
          s3 = (if has_frac then dropWhile is_digit (tl s2) else s2);
          has_exp = (s3 \<noteq> [] \<and> (hd s3 = 0x65 \<or> hd s3 = 0x45));
          s4 = (if has_exp then tl s3 else s3);
          eneg = (has_exp \<and> s4 \<noteq> [] \<and> hd s4 = 0x2D);
          s5 = (if has_exp \<and> s4 \<noteq> [] \<and> (hd s4 = 0x2D \<or> hd s4 = 0x2B) then tl s4 else s4);
          ep = (if has_exp then takeWhile is_digit s5 else []);
          s6 = (if has_exp then dropWhile is_digit s5 else s5);
          m = int (digits_val (ip @ fp));
          sm = (if neg then - m else m);
          ev = int (digits_val ep);
          e = (if eneg then - ev else ev) - int (length fp)
      in if ip = [] \<or> (hd ip = 0x30 \<and> length ip > 1) then None
         else if has_frac \<and> fp = [] then None
         else if has_exp \<and> ep = [] then None
         else if 0 \<le> e then Some (JNum (sm * 10 ^ nat e), s6)
         else if 10 ^ nat (- e) dvd m then Some (JNum (sm div 10 ^ nat (- e)), s6)
         else Some (JReal sm e, s6))"

text \<open>
  The recursive descent over values, array elements and object members. Each function
  returns the value read and the rest of the text. A property that occurs twice in an
  object keeps its first position and takes the later value.
\<close>

function parse_value :: "js_string \<Rightarrow> (json \<times> js_string) option"
  and parse_elements :: "js_string \<Rightarrow> (json list \<times> js_string) option"
  and parse_members :: "js_string \<Rightarrow> ((js_string \<times> json) list \<times> js_string) option"
where
  "parse_value s =
     (case skip_ws s of
        [] \<Rightarrow> None
      | c # cs \<Rightarrow>
          if c = 0x22 then
            (case parse_chars cs of None \<Rightarrow> None | Some (str, r) \<Rightarrow> Some (JStr str, r))
          else if c = 0x5B then
            (if skip_ws cs \<noteq> [] \<and> hd (skip_ws cs) = 0x5D then Some (JArr [], tl (skip_ws cs))
             else (case parse_elements cs of None \<Rightarrow> None | Some (xs, r) \<Rightarrow> Some (JArr xs, r)))
          else if c = 0x7B then
            (if skip_ws cs \<noteq> [] \<and> hd (skip_ws cs) = 0x7D then Some (JObj [], tl (skip_ws cs))
             else (case parse_members cs of
                     None \<Rightarrow> None
                   | Some (ps, r) \<Rightarrow>
                       Some (JObj (foldl (\<lambda>obj (k, v). AList.update k v obj) [] ps), r)))
          else if take 4 (c # cs) = ustr ''null'' then Some (JNull, drop 4 (c # cs))
          else if take 4 (c # cs) = ustr ''true'' then Some (JBool True, drop 4 (c # cs))
          else if take 5 (c # cs) = ustr ''false'' then Some (JBool False, drop 5 (c # cs))
          else parse_number (c # cs))"
| "parse_elements s =
     (case parse_value s of
        None \<Rightarrow> None
      | Some (v, r) \<Rightarrow>
          if length r < length s then
            (case skip_ws r of
               [] \<Rightarrow> None
             | d # r' \<Rightarrow>
                 if d = 0x2C then cons_result v (parse_elements r')
                 else if d = 0x5D then Some ([v], r')
                 else None)
          else None)"
| "parse_members s =
     (case skip_ws s of
        [] \<Rightarrow> None
      | q # s1 \<Rightarrow>
          if q = 0x22 then
            (case parse_chars s1 of
               None \<Rightarrow> None
             | Some (k, s2) \<Rightarrow>
                 (case skip_ws s2 of
                    [] \<Rightarrow> None
                  | col # s3 \<Rightarrow>
                      if col = 0x3A \<and> length s3 < length s then
                        (case parse_value s3 of
                           None \<Rightarrow> None
                         | Some (v, r) \<Rightarrow>
                             if length r < length s then
                               (case skip_ws r of
                                  [] \<Rightarrow> None
                                | d # r' \<Rightarrow>
                                    if d = 0x2C then cons_result (k, v) (parse_members r')
                                    else if d = 0x7D then Some ([(k, v)], r')
                                    else None)
                             else None)
                      else None))
          else None)"
  by pat_completeness auto

termination
proof -
  have shorter: "length cs < length s" if "skip_ws s = c # cs" for s :: js_string and c cs
  proof -
    have "length (dropWhile is_json_ws s) \<le> length s"
      by (rule length_dropWhile_le)
    with that show ?thesis
      by (simp add: skip_ws_def)
  qed
  show ?thesis
    by (relation "measure (\<lambda>x. case x of Inl s \<Rightarrow> 2 * length s + 1
                                     | Inr (Inl s) \<Rightarrow> 2 * length s + 2
                                     | Inr (Inr s) \<Rightarrow> 2 * length s + 2)")
       (auto dest!: shorter)
qed

declare parse_value.simps [simp del] parse_elements.simps [simp del]
  parse_members.simps [simp del]

text \<open>\<open>JSON.parse\<close>: one value, surrounded by white space only. \<open>None\<close> is a SyntaxError.\<close>

definition JSON_parse :: "js_string \<Rightarrow> json option" where
  "JSON_parse s =
     (case parse_value s of
        None \<Rightarrow> None
      | Some (v, r) \<Rightarrow> if skip_ws r = [] then Some v else None)"

section \<open>The server's state and its environment\<close>

text \<open>
  What a failed file-system call reports in \<open>error.code\<close>: \<open>ENOENT\<close> for a file
  that does not exist, \<open>EACCES\<close> standing for every other code.
\<close>

datatype fs_code = ENOENT | EACCES

text \<open>
  The messages of the errors the data layer throws: \<open>FormatInvalid\<close> (the file holds
  JSON that is not an array), \<open>DataCorrupt\<close> (the file is not JSON), \<open>SaveFailed\<close>.
\<close>

datatype error_message = FormatInvalid | DataCorrupt | SaveFailed

datatype js_error = SystemError fs_code | TypeError | JsError error_message

datatype log_level = Debug | Info | Warn | Err

datatype log_event =
    DataFileMissing | JsonInvalid | LoadFailed | CacheHit | CacheMiss
  | BackupFailed | Saved | SaveError | RequestFailed

text \<open>
  The environment of one call: the configuration (\<open>config.cacheEnabled\<close>,
  \<open>config.cacheDuration\<close>, the variable \<open>BACKUP_ENABLED\<close>), the clock
  (\<open>Date.now()\<close> and \<open>new Date().toISOString()\<close>) and whether the file system
  refuses to read the data file, to write it, or to copy it.
\<close>

record env =
  cacheEnabled :: bool
  cacheDuration :: int
  backupEnabled :: bool
  clock_ms :: int
  clock_iso :: js_string
  readFault :: bool
  writeFault :: bool
  copyFault :: bool

text \<open>
  The state: the text of the data file and of its backup (\<open>None\<close>: no such file), the
  module variables \<open>memosCache\<close>, \<open>cacheTimestamp\<close> and \<open>lastId\<close>, and the log.
\<close>

record state =
  dataFile :: "js_string option"
  backupFile :: "js_string option"
  memosCache :: "json list option"
  cacheTimestamp :: "int option"
  lastId :: int
  logged :: "(log_level \<times> log_event) list"

text \<open>
  The file-system calls the server makes. A call that is refused changes nothing (a
  write that stops half-way is not modelled); a file that does not exist cannot be
  read or copied.
\<close>

definition log_event :: "log_level \<Rightarrow> log_event \<Rightarrow> state \<Rightarrow> state" where
  "log_event lvl ev st = st\<lparr>logged := logged st @ [(lvl, ev)]\<rparr>"

definition readFile :: "env \<Rightarrow> state \<Rightarrow> fs_code + js_string" where
  "readFile e st =
     (case dataFile st of
        None \<Rightarrow> Inl ENOENT
      | Some data \<Rightarrow> if readFault e then Inl EACCES else Inr data)"

definition writeFile :: "env \<Rightarrow> js_string \<Rightarrow> state \<Rightarrow> fs_code + state" where
  "writeFile e data st =
     (if writeFault e then Inl EACCES else Inr (st\<lparr>dataFile := Some (toWellFormed data)\<rparr>))"

definition copyFile :: "env \<Rightarrow> state \<Rightarrow> fs_code + state" where
  "copyFile e st =
     (case dataFile st of
        None \<Rightarrow> Inl ENOENT
      | Some data \<Rightarrow> if copyFault e then Inl EACCES else Inr (st\<lparr>backupFile := Some data\<rparr>))"

section \<open>Cache and data access\<close>

definition clearCache :: "state \<Rightarrow> state" where
  "clearCache st = st\<lparr>memosCache := None, cacheTimestamp := None\<rparr>"

text \<open>
  \<open>loadData\<close>: a missing file is the empty array; a text that is not JSON raises the
  \<open>DataCorrupt\<close> error; JSON that is not an array raises \<open>FormatInvalid\<close> (thrown
  inside the \<open>try\<close>, logged and thrown again by the last branch of the \<open>catch\<close>);
  any other read error is thrown again as it is. The elements of the array are not
  inspected.
\<close>

definition loadData :: "env \<Rightarrow> state \<Rightarrow> (js_error + json list) \<times> state" where
  "loadData e st =
     (case readFile e st of
        Inl code \<Rightarrow>
          if code = ENOENT then (Inr [], log_event Info DataFileMissing st)
          else (Inl (SystemError code), log_event Err LoadFailed st)
      | Inr data \<Rightarrow>
          (case JSON_parse data of
             None \<Rightarrow> (Inl (JsError DataCorrupt), log_event Err JsonInvalid st)
           | Some parsedData \<Rightarrow>
               (case parsedData of
                  JArr xs \<Rightarrow> (Inr xs, st)
                | _ \<Rightarrow> (Inl (JsError FormatInvalid), log_event Err LoadFailed st))))"

text \<open>
  \<open>loadDataWithCache\<close>. In the test \<open>memosCache && cacheTimestamp && ...\<close> an array is
  truthy and a number is truthy unless it is zero.
\<close>

definition loadDataWithCache :: "env \<Rightarrow> state \<Rightarrow> (js_error + json list) \<times> state" where
  "loadDataWithCache e st =
     (if \<not> cacheEnabled e then loadData e st
      else
        (case (memosCache st, cacheTimestamp st) of
           (Some cached, Some ts) \<Rightarrow>
             if ts \<noteq> 0 \<and> clock_ms e - ts < cacheDuration e
             then (Inr cached, log_event Debug CacheHit st)
             else
               (case loadData e (log_event Debug CacheMiss st) of
                  (Inl err, st1) \<Rightarrow> (Inl err, st1)
                | (Inr ms, st1) \<Rightarrow>
                    (Inr ms, st1\<lparr>memosCache := Some ms, cacheTimestamp := Some (clock_ms e)\<rparr>))
         | _ \<Rightarrow>
             (case loadData e (log_event Debug CacheMiss st) of
                (Inl err, st1) \<Rightarrow> (Inl err, st1)
              | (Inr ms, st1) \<Rightarrow>
                  (Inr ms, st1\<lparr>memosCache := Some ms, cacheTimestamp := Some (clock_ms e)\<rparr>))))"

text \<open>
  \<open>saveData\<close>: the optional backup copy, whose failure is only logged; the write; and,
  after a write that succeeded, \<open>clearCache\<close>. A write that fails skips \<open>clearCache\<close>
  and raises \<open>SaveFailed\<close>.
\<close>

definition saveData :: "env \<Rightarrow> json list \<Rightarrow> state \<Rightarrow> (js_error + unit) \<times> state" where
  "saveData e data st =
     (let st1 =
            (if backupEnabled e then
               (case copyFile e st of
                  Inl backupError \<Rightarrow> log_event Warn BackupFailed st
                | Inr copied \<Rightarrow> copied)
             else st)
      in case writeFile e (JSON_stringify (JArr data)) st1 of
           Inl code \<Rightarrow> (Inl (JsError SaveFailed), log_event Err SaveError st1)
         | Inr written \<Rightarrow> (Inr (), log_event Debug Saved (clearCache written)))"

section \<open>Identifiers\<close>

text \<open>\<open>m.id\<close>: reading a property of \<open>null\<close> throws; a value without the property gives
  \<open>undefined\<close> (\<open>None\<close>).\<close>

fun get_id :: "json \<Rightarrow> js_error + json option" where
  "get_id JNull = Inl TypeError"
| "get_id (JObj kvs) = Inr (map_of kvs (ustr ''id''))"
| "get_id v = Inr None"




definition getNextId :: "state \<Rightarrow> int \<times> state" where
  "getNextId st = (lastId st + 1, st\<lparr>lastId := lastId st + 1\<rparr>)"

section \<open>The REST handlers\<close>

text \<open>
  What a handler sends: the status code and the body. \<open>ValidationMessage\<close>,
  \<open>NotFoundMessage\<close> and \<open>ServerErrorMessage\<close> stand for the fixed error objects.
\<close>

datatype reply_body =
    Json json
  | ValidationMessage
  | NotFoundMessage
  | ServerErrorMessage

datatype response = Response nat reply_body

text \<open>
  The global error handler, for an error a handler throws: it is logged and, having no
  \<open>statusCode\<close>, answered with 500. A request that fails its schema is answered with
  400 before the handler runs.
\<close>

definition errorHandler :: "js_error \<Rightarrow> state \<Rightarrow> response \<times> state" where
  "errorHandler err st = (Response 500 ServerErrorMessage, log_event Err RequestFailed st)"

definition validationError :: "state \<Rightarrow> response \<times> state" where
  "validationError st = (Response 400 ValidationMessage, log_event Err RequestFailed st)"


definition newMemo :: "int \<Rightarrow> js_string \<Rightarrow> js_string \<Rightarrow> js_string \<Rightarrow> json" where
  "newMemo newId ttl cnt now =
     JObj [(ustr ''id'', JNum newId),
           (ustr ''title'', JStr (trim ttl)),
           (ustr ''content'', JStr (trim cnt)),
           (ustr ''createdAt'', JStr now),
           (ustr ''updatedAt'', JStr now)]"

text \<open>\<open>POST /api/memos\<close> with the body \<open>{title: ttl, content: cnt}\<close>\<close>

definition post_memos :: "env \<Rightarrow> js_string \<Rightarrow> js_string \<Rightarrow> state \<Rightarrow> response \<times> state" where
  "post_memos e ttl cnt st =
     (if \<not> memoBodySchema ttl cnt then validationError st
      else
        (case loadData e st of
           (Inl err, st1) \<Rightarrow> errorHandler err st1
         | (Inr memos, st1) \<Rightarrow>
             (case getNextId st1 of
                (newId, st2) \<Rightarrow>
                  (let memo = newMemo newId ttl cnt (clock_iso e) in
                   case saveData e (memos @ [memo]) st2 of
                     (Inl err, st3) \<Rightarrow> errorHandler err st3
                   | (Inr u, st3) \<Rightarrow> (Response 201 (Json memo), st3)))))"

text \<open>
  \<open>memos.findIndex(m => m.id === id)\<close>: the index of the first element whose \<open>id\<close> is
  the number \<open>id\<close>; the callback throws on a \<open>null\<close> element met before that.
\<close>

fun findIndex :: "json list \<Rightarrow> int \<Rightarrow> js_error + nat option" where
  "findIndex [] i = Inr None"
| "findIndex (m # ms) i =
     (case get_id m of
        Inl err \<Rightarrow> Inl err
      | Inr v \<Rightarrow>
          if v = Some (JNum i) then Inr (Some 0)
          else
            (case findIndex ms i of
               Inl err \<Rightarrow> Inl err
             | Inr None \<Rightarrow> Inr None
             | Inr (Some k) \<Rightarrow> Inr (Some (Suc k))))"

text \<open>
  \<open>obj.key = value\<close> on an element \<open>findIndex\<close> has found, which is an object: the
  property keeps its place, or is added last.
\<close>

fun assign :: "json \<Rightarrow> js_string \<Rightarrow> json \<Rightarrow> json" where
  "assign (JObj kvs) k v = JObj (AList.update k v kvs)"
| "assign j k v = j"

definition updateMemo :: "json \<Rightarrow> js_string \<Rightarrow> js_string \<Rightarrow> js_string \<Rightarrow> json" where
  "updateMemo m ttl cnt now =
     assign (assign (assign m (ustr ''title'') (JStr (trim ttl)))
                    (ustr ''content'') (JStr (trim cnt)))
            (ustr ''updatedAt'') (JStr now)"

text \<open>\<open>PUT /api/memos/:id\<close> with the parameter \<open>idp\<close> and the body \<open>{title: ttl, content: cnt}\<close>\<close>

definition put_memo ::
  "env \<Rightarrow> js_string \<Rightarrow> js_string \<Rightarrow> js_string \<Rightarrow> state \<Rightarrow> response \<times> state" where
  "put_memo e idp ttl cnt st =
     (if \<not> (idParamSchema idp \<and> memoBodySchema ttl cnt) then validationError st
      else
        (case loadData e st of
           (Inl err, st1) \<Rightarrow> errorHandler err st1
         | (Inr memos, st1) \<Rightarrow>
             (case findIndex memos (parseInt idp) of
                Inl err \<Rightarrow> errorHandler err st1
              | Inr None \<Rightarrow> (Response 404 NotFoundMessage, st1)
              | Inr (Some memoIndex) \<Rightarrow>
                  (let memos' = memos[memoIndex := updateMemo (memos ! memoIndex) ttl cnt (clock_iso e)]
                   in case saveData e memos' st1 of
                        (Inl err, st2) \<Rightarrow> errorHandler err st2
                      | (Inr u, st2) \<Rightarrow> (Response 200 (Json (memos' ! memoIndex)), st2)))))"


section \<open>The first version of the server (index.js)\<close>

text \<open>
  \<open>index.js\<close> has its own \<open>loadData\<close>, whose \<open>catch\<close> answers every error, a missing
  file and a text that is not JSON alike, with the empty array, and which returns
  whatever value the text denotes. Its handlers test the body themselves:
  \<open>!title || title.trim() === ''\<close> (the empty string is falsy).
\<close>

definition loadData_index :: "env \<Rightarrow> state \<Rightarrow> json" where
  "loadData_index e st =
     (case readFile e st of
        Inl code \<Rightarrow> JArr []
      | Inr data \<Rightarrow> (case JSON_parse data of None \<Rightarrow> JArr [] | Some v \<Rightarrow> v))"

definition missing_index :: "js_string \<Rightarrow> bool" where
  "missing_index s = (s = [] \<or> trim s = [])"

section \<open>Memos and the stored collection\<close>

text \<open>
  A memo as the specification describes it, the object the server writes for it, and
  the reading of an object with exactly these five properties (in any order).
\<close>

record memo =
  memo_id :: int
  title :: js_string
  content :: js_string
  createdAt :: js_string
  updatedAt :: js_string

definition memo_json :: "memo \<Rightarrow> json" where
  "memo_json m =
     JObj [(ustr ''id'', JNum (memo_id m)),
           (ustr ''title'', JStr (title m)),
           (ustr ''content'', JStr (content m)),
           (ustr ''createdAt'', JStr (createdAt m)),
           (ustr ''updatedAt'', JStr (updatedAt m))]"

definition memo_keys :: "js_string list" where
  "memo_keys = [ustr ''id'', ustr ''title'', ustr ''content'', ustr ''createdAt'',
                ustr ''updatedAt'']"

fun memo_of :: "json \<Rightarrow> memo option" where
  "memo_of (JObj kvs) =
     (if distinct (map fst kvs) \<and> list_all (\<lambda>k. k \<in> set memo_keys) (map fst kvs) then
        (case (map_of kvs (ustr ''id''), map_of kvs (ustr ''title''),
               map_of kvs (ustr ''content''), map_of kvs (ustr ''createdAt''),
               map_of kvs (ustr ''updatedAt'')) of
           (Some (JNum i), Some (JStr t), Some (JStr c), Some (JStr ca), Some (JStr ua)) \<Rightarrow>
             Some \<lparr>memo_id = i, title = t, content = c, createdAt = ca, updatedAt = ua\<rparr>
         | _ \<Rightarrow> None)
      else None)"
| "memo_of j = None"

text \<open>
  The array the data file holds (empty when there is no file; \<open>None\<close> when the file
  is not a JSON array), and the collection of memos it stands for (\<open>None\<close> when some
  element is not a memo).
\<close>

definition stored :: "state \<Rightarrow> json list option" where
  "stored st =
     (case dataFile st of
        None \<Rightarrow> Some []
      | Some data \<Rightarrow> (case JSON_parse data of Some (JArr xs) \<Rightarrow> Some xs | _ \<Rightarrow> None))"

definition Collection :: "state \<Rightarrow> memo list option" where
  "Collection st = (case stored st of None \<Rightarrow> None | Some xs \<Rightarrow> those (map memo_of xs))"


text \<open>The memo a successful POST creates, and the memo a successful PUT leaves.\<close>

definition created :: "env \<Rightarrow> state \<Rightarrow> js_string \<Rightarrow> js_string \<Rightarrow> memo" where
  "created e st ttl cnt =
     \<lparr>memo_id = lastId st + 1, title = trim ttl, content = trim cnt,
      createdAt = clock_iso e, updatedAt = clock_iso e\<rparr>"

definition updated :: "env \<Rightarrow> js_string \<Rightarrow> js_string \<Rightarrow> memo \<Rightarrow> memo" where
  "updated e ttl cnt m = m\<lparr>title := trim ttl, content := trim cnt, updatedAt := clock_iso e\<rparr>"

text \<open>The position of the first memo with a given identifier.\<close>

fun index_of :: "memo list \<Rightarrow> int \<Rightarrow> nat option" where
  "index_of [] i = None"
| "index_of (m # ms) i =
     (if memo_id m = i then Some 0
      else (case index_of ms i of None \<Rightarrow> None | Some k \<Rightarrow> Some (Suc k)))"









text \<open>The backup step of \<open>saveData\<close>, named for the proofs.\<close>

definition backup_step :: "env \<Rightarrow> state \<Rightarrow> state" where
  "backup_step e st =
     (if backupEnabled e then
        (case copyFile e st of
           Inl backupError \<Rightarrow> log_event Warn BackupFailed st
         | Inr copied \<Rightarrow> copied)
      else st)"

text \<open>A concrete environment and the state of a fresh installation, for examples.\<close>

definition env0 :: env where
  "env0 = \<lparr>cacheEnabled = True, cacheDuration = 5000, backupEnabled = False,
           clock_ms = 1704067200000, clock_iso = ustr ''2024-01-01T00:00:00.000Z'',
           readFault = False, writeFault = False, copyFault = False\<rparr>"

definition state0 :: state where
  "state0 = \<lparr>dataFile = None, backupFile = None, memosCache = None,
             cacheTimestamp = None, lastId = 0, logged = []\<rparr>"


definition old_memo :: memo where
  "old_memo = \<lparr>memo_id = 1, title = ustr ''t'', content = ustr ''c'',
               createdAt = ustr ''2025-06-01T00:00:00.000Z'',
               updatedAt = ustr ''2025-06-01T00:00:00.000Z''\<rparr>"

definition later_state :: state where
  "later_state = state0\<lparr>dataFile := Some (JSON_stringify (JArr [memo_json old_memo])), lastId := 1\<rparr>"



section \<open>Notions for the round trip\<close>

text \<open>
  The values for which writing and reading back is proved to be the identity: no
  number that is not an integer, and no object with a repeated property name. Every
  memo the server writes is of this kind.
\<close>

fun canonical :: "json \<Rightarrow> bool" where
  "canonical (JReal m e) = False"
| "canonical (JArr xs) = (\<forall>x \<in> set xs. canonical x)"
| "canonical (JObj kvs) = (distinct (map fst kvs) \<and> (\<forall>p \<in> set kvs. canonical (snd p)))"
| "canonical j = True"

text \<open>
  A text after which a number literal ends (no digit, point or exponent follows); a
  text that starts like a value; a code unit that is not a surrogate.
\<close>

definition num_end :: "js_string \<Rightarrow> bool" where
  "num_end rest = (case rest of [] \<Rightarrow> True | c # cs \<Rightarrow> \<not> is_digit c \<and> c \<noteq> 0x2E \<and> c \<noteq> 0x65 \<and> c \<noteq> 0x45)"

definition starts_value :: "js_string \<Rightarrow> bool" where
  "starts_value s = (case s of [] \<Rightarrow> False | c # cs \<Rightarrow> \<not> is_json_ws c \<and> c \<noteq> 0x5D \<and> c \<noteq> 0x7D)"

definition plain :: "16 word \<Rightarrow> bool" where
  "plain c = (\<not> is_lead c \<and> \<not> is_trail c)"

section \<open>Basic facts about the state\<close>

lemma log_event_simps [simp]:
  "dataFile (log_event l ev st) = dataFile st"
  "backupFile (log_event l ev st) = backupFile st"
  "memosCache (log_event l ev st) = memosCache st"
  "cacheTimestamp (log_event l ev st) = cacheTimestamp st"
  "lastId (log_event l ev st) = lastId st"
  "logged (log_event l ev st) = logged st @ [(l, ev)]"
  by (simp_all add: log_event_def)

lemma clearCache_simps [simp]:
  "dataFile (clearCache st) = dataFile st"
  "backupFile (clearCache st) = backupFile st"
  "memosCache (clearCache st) = None"
  "cacheTimestamp (clearCache st) = None"
  "lastId (clearCache st) = lastId st"
  "logged (clearCache st) = logged st"
  by (simp_all add: clearCache_def)

lemma backup_step_simps [simp]:
  "dataFile (backup_step e st) = dataFile st"
  "memosCache (backup_step e st) = memosCache st"
  "cacheTimestamp (backup_step e st) = cacheTimestamp st"
  "lastId (backup_step e st) = lastId st"
  by (simp_all add: backup_step_def copyFile_def split: option.splits)

lemma saveData_alt:
  "saveData e data st =
     (if writeFault e then (Inl (JsError SaveFailed), log_event Err SaveError (backup_step e st))
      else (Inr (), log_event Debug Saved
              (clearCache ((backup_step e st)
                 \<lparr>dataFile := Some (toWellFormed (JSON_stringify (JArr data)))\<rparr>))))"
  by (simp add: saveData_def backup_step_def writeFile_def Let_def)

lemma stored_cong: "dataFile st' = dataFile st \<Longrightarrow> stored st' = stored st"
  by (simp add: stored_def)

lemma Collection_cong: "dataFile st' = dataFile st \<Longrightarrow> Collection st' = Collection st"
  by (simp add: Collection_def stored_def)

section \<open>Reading back what \<open>JSON.stringify\<close> wrote\<close>

subsection \<open>Numbers\<close>

lemma unat_of_nat16: "k < 65536 \<Longrightarrow> unat (of_nat k :: 16 word) = k"
  by (simp add: unat_of_nat)

lemma digit_unat [simp]: "d < 10 \<Longrightarrow> unat (48 + of_nat d :: 16 word) = 48 + d"
  using unat_of_nat16 [of "48 + d"] by simp

lemma digit_char: "d < 10 \<Longrightarrow> is_digit (48 + of_nat d)"
  by (simp add: is_digit_def word_le_nat_alt)

lemma digits_all: "list_all is_digit (digits n)"
proof (induction n rule: digits.induct)
  case (1 n)
  show ?case
  proof (cases "n < 10")
    case True
    then show ?thesis by (subst digits.simps) (simp add: digit_char)
  next
    case False
    with 1 show ?thesis by (subst digits.simps) (simp add: digit_char)
  qed
qed

lemma digits_not_Nil: "digits n \<noteq> []"
  by (subst digits.simps) simp

lemma digits_val_snoc: "digits_val (xs @ [c]) = 10 * digits_val xs + (unat c - 48)"
  by (simp add: digits_val_def)

lemma digits_val_digits: "digits_val (digits n) = n"
proof (induction n rule: digits.induct)
  case (1 n)
  show ?case
  proof (cases "n < 10")
    case True
    then show ?thesis by (subst digits.simps) (simp add: digits_val_def digit_char)
  next
    case False
    with 1 show ?thesis
      by (subst digits.simps) (simp add: digits_val_snoc digit_char)
  qed
qed

lemma digits_hd: "hd (digits n) = 0x30 \<Longrightarrow> n = 0"
proof (induction n rule: digits.induct)
  case (1 n)
  show ?case
  proof (cases "n < 10")
    case True
    with 1(2) have "(of_nat (48 + n) :: 16 word) = 0x30"
      by (subst (asm) digits.simps) simp
    then have "unat (of_nat (48 + n) :: 16 word) = unat (0x30 :: 16 word)" by simp
    with True show ?thesis by (simp add: digit_char)
  next
    case False
    with 1(2) have "hd (digits (n div 10)) = 0x30"
      by (subst (asm) digits.simps) (simp add: digits_not_Nil)
    with 1(1) False have "n div 10 = 0" by simp
    with False show ?thesis by simp
  qed
qed

lemma digits_length_1: "length (digits 0) = 1"
  by (subst digits.simps) simp

lemma takeWhile_digits: "num_end rest \<Longrightarrow> takeWhile is_digit (digits n @ rest) = digits n"
  using digits_all [of n]
  by (cases rest) (auto simp: num_end_def takeWhile_append list_all_iff)

lemma dropWhile_digits: "num_end rest \<Longrightarrow> dropWhile is_digit (digits n @ rest) = rest"
  using digits_all [of n]
  by (cases rest) (auto simp: num_end_def dropWhile_append list_all_iff)

lemma digits_hd_not_minus: "hd (digits n) \<noteq> 0x2D"
  using digits_all [of n] digits_not_Nil [of n]
  by (cases "digits n") (auto simp: is_digit_def)

lemma num_end_frac: "num_end rest \<Longrightarrow> (rest \<noteq> [] \<and> hd rest = 0x2E) = False"
  by (cases rest) (auto simp: num_end_def)

lemma num_end_exp: "num_end rest \<Longrightarrow> (rest \<noteq> [] \<and> (hd rest = 0x65 \<or> hd rest = 0x45)) = False"
  by (cases rest) (auto simp: num_end_def)

lemma digits_no_leading_zero: "hd (digits n) = 0x30 \<Longrightarrow> length (digits n) = Suc 0"
  using digits_hd [of n] digits_length_1 by auto

lemma digits_val_Nil: "digits_val [] = 0"
  by (simp add: digits_val_def)

lemma parse_number_nat:
  assumes "num_end rest"
  shows "parse_number (digits n @ rest) = Some (JNum (int n), rest)"
  by (simp add: parse_number_def Let_def digits_hd_not_minus
      takeWhile_digits [OF assms] dropWhile_digits [OF assms]
      num_end_frac [OF assms] num_end_exp [OF assms] digits_no_leading_zero
      digits_not_Nil digits_val_digits digits_val_Nil)

lemma parse_number_neg:
  assumes "num_end rest"
  shows "parse_number (0x2D # digits n @ rest) = Some (JNum (- int n), rest)"
  by (simp add: parse_number_def Let_def
      takeWhile_digits [OF assms] dropWhile_digits [OF assms]
      num_end_frac [OF assms] num_end_exp [OF assms] digits_no_leading_zero
      digits_not_Nil digits_val_digits digits_val_Nil)

lemma parse_number_NumberToString:
  "num_end rest \<Longrightarrow> parse_number (NumberToString i @ rest) = Some (JNum i, rest)"
  by (simp add: NumberToString_def parse_number_nat parse_number_neg)

subsection \<open>Strings\<close>

lemma hexdigit_unat: "d < 16 \<Longrightarrow> unat (hexdigit d) = (if d < 10 then 48 + d else 87 + d)"
  using unat_of_nat16 [of "48 + d"] unat_of_nat16 [of "87 + d"]
  by (simp add: hexdigit_def del: of_nat_add)

lemma hexval_hexdigit: "d < 16 \<Longrightarrow> hexval (hexdigit d) = Some d"
  by (simp add: hexval_def word_le_nat_alt hexdigit_unat)

lemma hex_recompose:
  fixes n :: nat
  assumes "n < 65536"
  shows "((n div 4096 * 16 + n div 256 mod 16) * 16 + n div 16 mod 16) * 16 + n mod 16 = n"
proof -
  have a: "n mod 256 = 16 * (n div 16 mod 16) + n mod 16"
    using mod_mult2_eq [of n 16 16] by simp
  have b: "n mod 4096 = 256 * (n div 256 mod 16) + n mod 256"
    using mod_mult2_eq [of n 256 16] by simp
  have c: "n = 4096 * (n div 4096) + n mod 4096"
    by simp
  have combine: "((q * 16 + p) * 16 + k) * 16 + d = m"
    if "r2 = 16 * k + d" "r1 = 256 * p + r2" "m = 4096 * q + r1" for q p k d r1 r2 m :: nat
    using that by simp
  from combine [OF a b c] show ?thesis .
qed

lemma hex4_UnicodeEscape:
  "hex4 [hexdigit (unat c div 4096), hexdigit (unat c div 256 mod 16),
         hexdigit (unat c div 16 mod 16), hexdigit (unat c mod 16)] = Some (c :: 16 word)"
proof -
  have n: "unat c < 65536"
    using unsigned_less [of c, where ?'a = nat] by simp
  then have a: "unat c div 4096 < 16" by simp
  have "hex4 [hexdigit (unat c div 4096), hexdigit (unat c div 256 mod 16),
         hexdigit (unat c div 16 mod 16), hexdigit (unat c mod 16)]
        = Some (of_nat (((unat c div 4096 * 16 + unat c div 256 mod 16) * 16
             + unat c div 16 mod 16) * 16 + unat c mod 16))"
    using a by (simp add: hex4_def hexval_hexdigit del: of_nat_add of_nat_mult)
  also have "\<dots> = Some (of_nat (unat c))"
    by (simp only: hex_recompose [OF n])
  finally show ?thesis by simp
qed

lemma parse_chars_escape:
  "parse_chars (UnicodeEscape c @ s) = cons_result c (parse_chars s)"
  by (simp add: UnicodeEscape_def hex4_UnicodeEscape)

lemma lead_props: "is_lead c \<Longrightarrow> c \<noteq> 0x22 \<and> c \<noteq> 0x5C \<and> \<not> c < 0x20"
  by (auto simp: is_lead_def word_le_nat_alt word_less_nat_alt)

lemma trail_props: "is_trail c \<Longrightarrow> c \<noteq> 0x22 \<and> c \<noteq> 0x5C \<and> \<not> c < 0x20"
  by (auto simp: is_trail_def word_le_nat_alt word_less_nat_alt)

lemma parse_chars_simple:
  "simple_escape e = Some u \<Longrightarrow> e \<noteq> 0x75 \<Longrightarrow>
   parse_chars (0x5C # e # s) = cons_result u (parse_chars s)"
  by simp

lemma parse_chars_raw:
  "c \<noteq> 0x22 \<Longrightarrow> c \<noteq> 0x5C \<Longrightarrow> \<not> c < 0x20 \<Longrightarrow>
   parse_chars (c # s) = cons_result c (parse_chars s)"
  by simp

lemma cons_result_Some: "cons_result x (Some (xs, r)) = Some (x # xs, r)"
  by (simp add: cons_result_def)

lemma QuoteChars_step:
  "QuoteChars (c # cs) @ t =
     (if c = 0x08 then 0x5C # 0x62 # QuoteChars cs @ t
      else if c = 0x09 then 0x5C # 0x74 # QuoteChars cs @ t
      else if c = 0x0A then 0x5C # 0x6E # QuoteChars cs @ t
      else if c = 0x0C then 0x5C # 0x66 # QuoteChars cs @ t
      else if c = 0x0D then 0x5C # 0x72 # QuoteChars cs @ t
      else if c = 0x22 then 0x5C # 0x22 # QuoteChars cs @ t
      else if c = 0x5C then 0x5C # 0x5C # QuoteChars cs @ t
      else if c < 0x20 then UnicodeEscape c @ QuoteChars cs @ t
      else if is_lead c \<and> cs \<noteq> [] \<and> is_trail (hd cs) then c # hd cs # QuoteChars (tl cs) @ t
      else if is_lead c \<or> is_trail c then UnicodeEscape c @ QuoteChars cs @ t
      else c # QuoteChars cs @ t)"
  by (cases cs) simp_all

lemma parse_chars_QuoteChars:
  "parse_chars (QuoteChars s @ 0x22 # rest) = Some (s, rest)"
proof (induction "length s" arbitrary: s rule: less_induct)
  case less
  show ?case
  proof (cases s)
    case Nil
    then show ?thesis by simp
  next
    case (Cons c cs)
    have step: "QuoteChars s @ 0x22 # rest =
     (if c = 0x08 then 0x5C # 0x62 # QuoteChars cs @ 0x22 # rest
      else if c = 0x09 then 0x5C # 0x74 # QuoteChars cs @ 0x22 # rest
      else if c = 0x0A then 0x5C # 0x6E # QuoteChars cs @ 0x22 # rest
      else if c = 0x0C then 0x5C # 0x66 # QuoteChars cs @ 0x22 # rest
      else if c = 0x0D then 0x5C # 0x72 # QuoteChars cs @ 0x22 # rest
      else if c = 0x22 then 0x5C # 0x22 # QuoteChars cs @ 0x22 # rest
      else if c = 0x5C then 0x5C # 0x5C # QuoteChars cs @ 0x22 # rest
      else if c < 0x20 then UnicodeEscape c @ QuoteChars cs @ 0x22 # rest
      else if is_lead c \<and> cs \<noteq> [] \<and> is_trail (hd cs)
        then c # hd cs # QuoteChars (tl cs) @ 0x22 # rest
      else if is_lead c \<or> is_trail c then UnicodeEscape c @ QuoteChars cs @ 0x22 # rest
      else c # QuoteChars cs @ 0x22 # rest)"
      unfolding Cons by (rule QuoteChars_step)
    have IH: "parse_chars (QuoteChars cs @ 0x22 # rest) = Some (cs, rest)"
      using less [of cs] Cons by simp
    have esc: "parse_chars (UnicodeEscape c @ QuoteChars cs @ 0x22 # rest) = Some (c # cs, rest)"
      by (simp only: parse_chars_escape IH cons_result_Some)
    have se: "parse_chars (0x5C # e # QuoteChars cs @ 0x22 # rest) = Some (c # cs, rest)"
      if "simple_escape e = Some c" "e \<noteq> 0x75" for e
      by (simp only: parse_chars_simple [OF that] IH cons_result_Some)
    consider (e1) "c = 0x08" | (e2) "c = 0x09" | (e3) "c = 0x0A" | (e4) "c = 0x0C"
      | (e5) "c = 0x0D" | (e6) "c = 0x22" | (e7) "c = 0x5C"
      | (other) "c \<noteq> 0x08" "c \<noteq> 0x09" "c \<noteq> 0x0A" "c \<noteq> 0x0C" "c \<noteq> 0x0D" "c \<noteq> 0x22" "c \<noteq> 0x5C"
      by blast
    then show ?thesis
    proof cases
      case e1
      have "simple_escape 0x62 = Some c" using e1 by (simp add: simple_escape_def)
      from se [OF this] e1 Cons show ?thesis by (simp only: step) simp
    next
      case e2
      have "simple_escape 0x74 = Some c" using e2 by (simp add: simple_escape_def)
      from se [OF this] e2 Cons show ?thesis by (simp only: step) simp
    next
      case e3
      have "simple_escape 0x6E = Some c" using e3 by (simp add: simple_escape_def)
      from se [OF this] e3 Cons show ?thesis by (simp only: step) simp
    next
      case e4
      have "simple_escape 0x66 = Some c" using e4 by (simp add: simple_escape_def)
      from se [OF this] e4 Cons show ?thesis by (simp only: step) simp
    next
      case e5
      have "simple_escape 0x72 = Some c" using e5 by (simp add: simple_escape_def)
      from se [OF this] e5 Cons show ?thesis by (simp only: step) simp
    next
      case e6
      have "simple_escape 0x22 = Some c" using e6 by (simp add: simple_escape_def)
      from se [OF this] e6 Cons show ?thesis by (simp only: step) simp
    next
      case e7
      have "simple_escape 0x5C = Some c" using e7 by (simp add: simple_escape_def)
      from se [OF this] e7 Cons show ?thesis by (simp only: step) simp
    next
      case other
      show ?thesis
      proof (cases "c < 0x20")
        case True
        have q: "QuoteChars s @ 0x22 # rest = UnicodeEscape c @ QuoteChars cs @ 0x22 # rest"
          using True other by (simp only: step if_False if_True simp_thms)
        show ?thesis
          by (simp only: q) (simp only: Cons esc)
      next
        case ge: False
        show ?thesis
        proof (cases "is_lead c \<and> cs \<noteq> [] \<and> is_trail (hd cs)")
          case True
          then obtain d ds where cs: "cs = d # ds" and d: "is_trail d"
            by (cases cs) auto
          have IH2: "parse_chars (QuoteChars ds @ 0x22 # rest) = Some (ds, rest)"
            using less [of ds] Cons cs by simp
          have rc: "parse_chars (c # t) = cons_result c (parse_chars t)" for t
            using other ge by (intro parse_chars_raw)
          have rd: "parse_chars (d # t) = cons_result d (parse_chars t)" for t
            using trail_props [OF d] by (intro parse_chars_raw) simp_all
          have p: "parse_chars (c # d # QuoteChars ds @ 0x22 # rest) = Some (c # d # ds, rest)"
            by (simp only: rc rd IH2 cons_result_Some)
          have "QuoteChars s @ 0x22 # rest = c # hd cs # QuoteChars (tl cs) @ 0x22 # rest"
            using True other ge by (simp only: step if_False if_True simp_thms)
          with p Cons cs show ?thesis
            by simp
        next
          case np: False
          show ?thesis
          proof (cases "is_lead c \<or> is_trail c")
            case True
            have q: "QuoteChars s @ 0x22 # rest = UnicodeEscape c @ QuoteChars cs @ 0x22 # rest"
              using True other ge np by (simp only: step if_False if_True simp_thms)
            show ?thesis
              by (simp only: q) (simp only: Cons esc)
          next
            case False
            have rc: "parse_chars (c # t) = cons_result c (parse_chars t)" for t
              using other ge by (intro parse_chars_raw)
            have p: "parse_chars (c # QuoteChars cs @ 0x22 # rest) = Some (c # cs, rest)"
              by (simp only: rc IH cons_result_Some)
            have q: "QuoteChars s @ 0x22 # rest = c # QuoteChars cs @ 0x22 # rest"
              using False other ge np by (simp only: step if_False if_True simp_thms)
            show ?thesis
              by (simp only: q) (simp only: Cons p)
          qed
        qed
      qed
    qed
  qed
qed

lemma parse_chars_QuoteJSONString:
  "parse_chars (tl (QuoteJSONString s) @ rest) = Some (s, rest)"
  by (simp add: QuoteJSONString_def parse_chars_QuoteChars)

subsection \<open>Values\<close>

lemma skip_ws_Nil [simp]: "skip_ws [] = []"
  by (simp add: skip_ws_def)

lemma skip_ws_keep: "\<not> is_json_ws c \<Longrightarrow> skip_ws (c # s) = c # s"
  by (simp add: skip_ws_def)

lemma skip_ws_drop: "is_json_ws c \<Longrightarrow> skip_ws (c # s) = skip_ws s"
  by (simp add: skip_ws_def)

lemma skip_ws_spaces: "skip_ws (replicate n 0x20 @ s) = skip_ws s"
  by (induction n) (simp_all add: skip_ws_def is_json_ws_def)

lemma skip_ws_newline: "skip_ws (newline ind @ s) = skip_ws s"
  using skip_ws_spaces [of ind s] by (simp add: newline_def skip_ws_drop is_json_ws_def)

lemma pv_cong: "skip_ws s = skip_ws s' \<Longrightarrow> parse_value s = parse_value s'"
  by (simp add: parse_value.simps)

lemma pe_step:
  "parse_value s = Some (v, r) \<Longrightarrow> length r < length s \<Longrightarrow> skip_ws r = d # r' \<Longrightarrow>
   parse_elements s =
     (if d = 0x2C then cons_result v (parse_elements r')
      else if d = 0x5D then Some ([v], r') else None)"
  by (simp add: parse_elements.simps)

lemma pm_step:
  "skip_ws s = 0x22 # s1 \<Longrightarrow> parse_chars s1 = Some (k, s2) \<Longrightarrow> skip_ws s2 = 0x3A # s3 \<Longrightarrow>
   length s3 < length s \<Longrightarrow> parse_value s3 = Some (v, r) \<Longrightarrow> length r < length s \<Longrightarrow>
   skip_ws r = d # r' \<Longrightarrow>
   parse_members s =
     (if d = 0x2C then cons_result (k, v) (parse_members r')
      else if d = 0x7D then Some ([(k, v)], r') else None)"
  by (simp add: parse_members.simps)

lemma pv_str:
  "skip_ws s = 0x22 # cs \<Longrightarrow>
   parse_value s = (case parse_chars cs of None \<Rightarrow> None | Some (str, r) \<Rightarrow> Some (JStr str, r))"
  by (simp add: parse_value.simps)

lemma pv_arr_empty: "skip_ws s = 0x5B # cs \<Longrightarrow> skip_ws cs = 0x5D # r \<Longrightarrow> parse_value s = Some (JArr [], r)"
  by (simp add: parse_value.simps)

lemma pv_arr:
  "skip_ws s = 0x5B # cs \<Longrightarrow> skip_ws cs = d # r \<Longrightarrow> d \<noteq> 0x5D \<Longrightarrow>
   parse_value s = (case parse_elements cs of None \<Rightarrow> None | Some (xs, r) \<Rightarrow> Some (JArr xs, r))"
  by (simp add: parse_value.simps)

lemma pv_obj_empty: "skip_ws s = 0x7B # cs \<Longrightarrow> skip_ws cs = 0x7D # r \<Longrightarrow> parse_value s = Some (JObj [], r)"
  by (simp add: parse_value.simps)

lemma pv_obj:
  "skip_ws s = 0x7B # cs \<Longrightarrow> skip_ws cs = d # r \<Longrightarrow> d \<noteq> 0x7D \<Longrightarrow>
   parse_value s =
     (case parse_members cs of
        None \<Rightarrow> None
      | Some (ps, r) \<Rightarrow> Some (JObj (foldl (\<lambda>obj (k, v). AList.update k v obj) [] ps), r))"
  by (simp add: parse_value.simps)

lemma pv_null: "skip_ws s = ustr ''null'' @ r \<Longrightarrow> parse_value s = Some (JNull, r)"
  by (simp add: parse_value.simps ustr_def)

lemma pv_true: "skip_ws s = ustr ''true'' @ r \<Longrightarrow> parse_value s = Some (JBool True, r)"
  by (simp add: parse_value.simps ustr_def)

lemma pv_false: "skip_ws s = ustr ''false'' @ r \<Longrightarrow> parse_value s = Some (JBool False, r)"
  by (simp add: parse_value.simps ustr_def)

lemma pv_num:
  "skip_ws s = c # cs \<Longrightarrow> c = 0x2D \<or> is_digit c \<Longrightarrow> parse_value s = parse_number (c # cs)"
  by (auto simp: parse_value.simps ustr_def is_digit_def)

lemma digit_not_ws: "is_digit c \<Longrightarrow> \<not> is_json_ws c \<and> c \<noteq> 0x5D \<and> c \<noteq> 0x7D"
  by (auto simp: is_digit_def is_json_ws_def)

lemma NumberToString_hd:
  "\<exists>c cs. NumberToString i = c # cs \<and> (c = 0x2D \<or> is_digit c)"
proof (cases "i < 0")
  case True
  then show ?thesis by (simp add: NumberToString_def)
next
  case False
  obtain c cs where d: "digits (nat i) = c # cs"
    using digits_not_Nil [of "nat i"] by (cases "digits (nat i)") auto
  with digits_all [of "nat i"] have "is_digit c" by simp
  with d False show ?thesis by (simp add: NumberToString_def)
qed

lemma starts_NumberToString: "starts_value (NumberToString i @ t)"
proof -
  obtain c cs where "NumberToString i = c # cs" "c = 0x2D \<or> is_digit c"
    using NumberToString_hd by blast
  then show ?thesis
    using digit_not_ws [of c] by (auto simp: starts_value_def is_json_ws_def)
qed

lemma starts_SerializeJSON: "starts_value (SerializeJSON ind v @ t)"
proof (cases v)
  case (JNum i)
  then show ?thesis by (simp add: starts_NumberToString)
next
  case (JReal m e)
  then show ?thesis using starts_NumberToString [of m "0x65 # NumberToString e @ t"] by simp
next
  case (JArr xs)
  then show ?thesis by (cases xs) (simp_all add: starts_value_def ustr_def is_json_ws_def)
next
  case (JObj ps)
  then show ?thesis by (cases ps) (simp_all add: starts_value_def ustr_def is_json_ws_def)
qed (simp_all add: starts_value_def ustr_def is_json_ws_def QuoteJSONString_def)

lemma starts_valueE:
  assumes "starts_value s"
  obtains c cs where "s = c # cs" "skip_ws s = s" "c \<noteq> 0x5D" "c \<noteq> 0x7D"
  using assms by (cases s) (auto simp: starts_value_def skip_ws_keep)

lemma skip_ws_value: "skip_ws (SerializeJSON ind v @ t) = SerializeJSON ind v @ t"
  using starts_SerializeJSON [of ind v t] by (auto elim: starts_valueE)

lemma SerializeJSON_not_Nil: "SerializeJSON ind v \<noteq> []"
  using starts_SerializeJSON [of ind v "[]"] by (auto simp: starts_value_def)

lemma num_end_newline: "num_end (newline k @ t)"
  by (simp add: num_end_def newline_def is_digit_def)

lemma num_end_comma: "num_end (0x2C # t)"
  by (simp add: num_end_def is_digit_def)

lemma update_fresh: "k \<notin> fst ` set acc \<Longrightarrow> AList.update k v acc = acc @ [(k, v)]"
  by (induction acc) auto

lemma foldl_update_distinct:
  "distinct (map fst ps) \<Longrightarrow> fst ` set acc \<inter> fst ` set ps = {} \<Longrightarrow>
   foldl (\<lambda>obj (k, v). AList.update k v obj) acc ps = acc @ ps"
proof (induction ps arbitrary: acc)
  case Nil
  then show ?case by simp
next
  case (Cons p ps)
  obtain k v where p: "p = (k, v)" by (cases p)
  from Cons.prems p have fresh: "k \<notin> fst ` set acc" by auto
  have "foldl (\<lambda>obj (k, v). AList.update k v obj) (acc @ [(k, v)]) ps = (acc @ [(k, v)]) @ ps"
    using Cons.prems p by (intro Cons.IH) auto
  with fresh p show ?case by (simp add: update_fresh)
qed

lemma skip_ws_elements:
  "skip_ws (SerializeElements ind (x # xs) @ t) =
   SerializeJSON ind x @ (case xs of [] \<Rightarrow> t | y # ys \<Rightarrow> 0x2C # SerializeElements ind (y # ys) @ t)"
  by (cases xs) (simp_all add: skip_ws_newline skip_ws_value)

lemma elements_first:
  "\<exists>d r. skip_ws (SerializeElements ind (x # xs) @ t) = d # r \<and> d \<noteq> 0x5D"
proof -
  let ?t = "case xs of [] \<Rightarrow> t | y # ys \<Rightarrow> 0x2C # SerializeElements ind (y # ys) @ t"
  from starts_SerializeJSON [of ind x ?t] show ?thesis
    by (auto simp: skip_ws_elements elim!: starts_valueE)
qed

lemma skip_ws_members:
  "skip_ws (SerializeMembers ind ((k, v) # ps) @ t) =
   0x22 # QuoteChars k @ 0x22 # 0x3A # 0x20 # SerializeJSON ind v
     @ (case ps of [] \<Rightarrow> t | q # qs \<Rightarrow> 0x2C # SerializeMembers ind (q # qs) @ t)"
  by (cases ps)
     (simp_all add: skip_ws_newline QuoteJSONString_def skip_ws_keep is_json_ws_def)

lemma rt_atoms:
  "parse_value (ustr ''null'' @ rest) = Some (JNull, rest)"
  "parse_value (ustr ''true'' @ rest) = Some (JBool True, rest)"
  "parse_value (ustr ''false'' @ rest) = Some (JBool False, rest)"
  "parse_value (ustr ''[]'' @ rest) = Some (JArr [], rest)"
  "parse_value (ustr ''{}'' @ rest) = Some (JObj [], rest)"
proof -
  have "skip_ws (ustr ''null'' @ rest) = ustr ''null'' @ rest"
    by (simp add: ustr_def skip_ws_keep is_json_ws_def)
  then show "parse_value (ustr ''null'' @ rest) = Some (JNull, rest)"
    by (rule pv_null)
  have "skip_ws (ustr ''true'' @ rest) = ustr ''true'' @ rest"
    by (simp add: ustr_def skip_ws_keep is_json_ws_def)
  then show "parse_value (ustr ''true'' @ rest) = Some (JBool True, rest)"
    by (rule pv_true)
  have "skip_ws (ustr ''false'' @ rest) = ustr ''false'' @ rest"
    by (simp add: ustr_def skip_ws_keep is_json_ws_def)
  then show "parse_value (ustr ''false'' @ rest) = Some (JBool False, rest)"
    by (rule pv_false)
  have "skip_ws (ustr ''[]'' @ rest) = 0x5B # 0x5D # rest" "skip_ws (0x5D # rest) = 0x5D # rest"
    by (simp_all add: ustr_def skip_ws_keep is_json_ws_def)
  then show "parse_value (ustr ''[]'' @ rest) = Some (JArr [], rest)"
    by (rule pv_arr_empty)
  have "skip_ws (ustr ''{}'' @ rest) = 0x7B # 0x7D # rest" "skip_ws (0x7D # rest) = 0x7D # rest"
    by (simp_all add: ustr_def skip_ws_keep is_json_ws_def)
  then show "parse_value (ustr ''{}'' @ rest) = Some (JObj [], rest)"
    by (rule pv_obj_empty)
qed

lemma rt_number:
  assumes "num_end rest"
  shows "parse_value (NumberToString i @ rest) = Some (JNum i, rest)"
proof -
  obtain c cs where n: "NumberToString i = c # cs" and c: "c = 0x2D \<or> is_digit c"
    using NumberToString_hd by blast
  have "\<not> is_json_ws c"
    using c digit_not_ws [of c] by (auto simp: is_json_ws_def)
  then have "skip_ws (NumberToString i @ rest) = c # (cs @ rest)"
    by (simp add: n skip_ws_keep)
  from pv_num [OF this c] have "parse_value (NumberToString i @ rest) = parse_number (NumberToString i @ rest)"
    by (simp add: n)
  with assms show ?thesis
    by (simp add: parse_number_NumberToString)
qed

lemma rt_string: "parse_value (QuoteJSONString s @ rest) = Some (JStr s, rest)"
proof -
  have "skip_ws (QuoteJSONString s @ rest) = 0x22 # (QuoteChars s @ 0x22 # rest)"
    by (simp add: QuoteJSONString_def skip_ws_keep is_json_ws_def)
  from pv_str [OF this] show ?thesis
    by (simp add: parse_chars_QuoteChars)
qed

lemma rt_all:
  "canonical v \<Longrightarrow> num_end rest \<Longrightarrow> parse_value (SerializeJSON ind v @ rest) = Some (v, rest)"
  "xs \<noteq> [] \<Longrightarrow> \<forall>x \<in> set xs. canonical x \<Longrightarrow>
     parse_elements (SerializeElements ind xs @ newline k @ 0x5D # rest) = Some (xs, rest)"
  "ps \<noteq> [] \<Longrightarrow> \<forall>p \<in> set ps. canonical (snd p) \<Longrightarrow>
     parse_members (SerializeMembers ind ps @ newline k @ 0x7D # rest) = Some (ps, rest)"
proof (induction ind v and ind xs and ind ps arbitrary: rest and k rest and k rest
       rule: SerializeJSON_SerializeElements_SerializeMembers.induct)
  case (1 ind)
  show ?case by (simp add: rt_atoms)
next
  case (2 ind b)
  show ?case by (simp add: rt_atoms)
next
  case (3 ind i)
  then show ?case by (simp add: rt_number)
next
  case (4 ind m e)
  then show ?case by simp
next
  case (5 ind s)
  show ?case by (simp add: rt_string)
next
  case (6 ind)
  show ?case by (simp add: rt_atoms)
next
  case (7 ind x xs)
  let ?cs = "SerializeElements (ind + 2) (x # xs) @ newline ind @ 0x5D # rest"
  have s: "skip_ws (SerializeJSON ind (JArr (x # xs)) @ rest) = 0x5B # ?cs"
    by (simp add: skip_ws_keep is_json_ws_def)
  obtain d r where f: "skip_ws ?cs = d # r" "d \<noteq> 0x5D"
    using elements_first by blast
  have "parse_elements ?cs = Some (x # xs, rest)"
    using 7 by simp
  with pv_arr [OF s f] show ?case
    by simp
next
  case (8 ind)
  show ?case by (simp add: rt_atoms)
next
  case (9 ind p ps)
  let ?cs = "SerializeMembers (ind + 2) (p # ps) @ newline ind @ 0x7D # rest"
  obtain k v where p: "p = (k, v)" by (cases p)
  have s: "skip_ws (SerializeJSON ind (JObj (p # ps)) @ rest) = 0x7B # ?cs"
    by (simp add: skip_ws_keep is_json_ws_def)
  have f: "skip_ws ?cs = 0x22 # tl (skip_ws ?cs)" "(0x22 :: 16 word) \<noteq> 0x7D"
    by (simp_all add: p skip_ws_members)
  have m: "parse_members ?cs = Some (p # ps, rest)"
    using 9 by simp
  have "foldl (\<lambda>obj (k, v). AList.update k v obj) [] (p # ps) = [] @ (p # ps)"
    using 9(2) by (intro foldl_update_distinct) simp_all
  with pv_obj [OF s f] m show ?case
    by simp
next
  case (10 ind)
  then show ?case by simp
next
  case (11 ind x)
  let ?s = "SerializeElements ind [x] @ newline k @ 0x5D # rest"
  let ?r = "newline k @ 0x5D # rest"
  have "parse_value (SerializeJSON ind x @ ?r) = Some (x, ?r)"
    using 11 by (simp add: num_end_newline)
  moreover have "skip_ws ?s = skip_ws (SerializeJSON ind x @ ?r)"
    by (simp add: skip_ws_newline)
  ultimately have v: "parse_value ?s = Some (x, ?r)"
    using pv_cong by metis
  have l: "length ?r < length ?s"
    using SerializeJSON_not_Nil [of ind x] by (simp add: newline_def)
  have w: "skip_ws ?r = 0x5D # rest"
    by (simp add: skip_ws_newline skip_ws_keep is_json_ws_def)
  from pe_step [OF v l w] show ?case
    by simp
next
  case (12 ind x y ys)
  let ?s = "SerializeElements ind (x # y # ys) @ newline k @ 0x5D # rest"
  let ?t = "SerializeElements ind (y # ys) @ newline k @ 0x5D # rest"
  let ?r = "0x2C # ?t"
  have "parse_value (SerializeJSON ind x @ ?r) = Some (x, ?r)"
    using 12 by (simp add: num_end_comma)
  moreover have "skip_ws ?s = skip_ws (SerializeJSON ind x @ ?r)"
    by (simp add: skip_ws_newline)
  ultimately have v: "parse_value ?s = Some (x, ?r)"
    using pv_cong by metis
  have l: "length ?r < length ?s"
    using SerializeJSON_not_Nil [of ind x] by (simp add: newline_def)
  have w: "skip_ws ?r = 0x2C # ?t"
    by (simp add: skip_ws_keep is_json_ws_def)
  have "parse_elements ?t = Some (y # ys, rest)"
    using 12 by simp
  with pe_step [OF v l w] show ?case
    by (simp add: cons_result_def)
next
  case (13 ind)
  then show ?case by simp
next
  case (14 ind key v)
  let ?s = "SerializeMembers ind [(key, v)] @ newline k @ 0x7D # rest"
  let ?r = "newline k @ 0x7D # rest"
  let ?s3 = "0x20 # SerializeJSON ind v @ ?r"
  have a: "skip_ws ?s = 0x22 # (QuoteChars key @ 0x22 # 0x3A # ?s3)"
    by (simp only: skip_ws_members list.case)
  have b: "parse_chars (QuoteChars key @ 0x22 # 0x3A # ?s3) = Some (key, 0x3A # ?s3)"
    by (rule parse_chars_QuoteChars)
  have c: "skip_ws (0x3A # ?s3) = 0x3A # ?s3"
    by (simp add: skip_ws_keep is_json_ws_def)
  have d: "length ?s3 < length ?s"
    by (simp add: QuoteJSONString_def)
  have "parse_value (SerializeJSON ind v @ ?r) = Some (v, ?r)"
    using 14 by (simp add: num_end_newline)
  moreover have "skip_ws ?s3 = skip_ws (SerializeJSON ind v @ ?r)"
    by (simp add: skip_ws_drop is_json_ws_def)
  ultimately have e: "parse_value ?s3 = Some (v, ?r)"
    using pv_cong by metis
  have f: "length ?r < length ?s"
    by (simp add: QuoteJSONString_def)
  have g: "skip_ws ?r = 0x7D # rest"
    by (simp add: skip_ws_newline skip_ws_keep is_json_ws_def)
  from pm_step [OF a b c d e f g] show ?case
    by simp
next
  case (15 ind key v q qs)
  let ?s = "SerializeMembers ind ((key, v) # q # qs) @ newline k @ 0x7D # rest"
  let ?t = "SerializeMembers ind (q # qs) @ newline k @ 0x7D # rest"
  let ?r = "0x2C # ?t"
  let ?s3 = "0x20 # SerializeJSON ind v @ ?r"
  have a: "skip_ws ?s = 0x22 # (QuoteChars key @ 0x22 # 0x3A # ?s3)"
    by (simp only: skip_ws_members list.case)
  have b: "parse_chars (QuoteChars key @ 0x22 # 0x3A # ?s3) = Some (key, 0x3A # ?s3)"
    by (rule parse_chars_QuoteChars)
  have c: "skip_ws (0x3A # ?s3) = 0x3A # ?s3"
    by (simp add: skip_ws_keep is_json_ws_def)
  have d: "length ?s3 < length ?s"
    by (simp add: QuoteJSONString_def)
  have "parse_value (SerializeJSON ind v @ ?r) = Some (v, ?r)"
    using 15 by (simp add: num_end_comma)
  moreover have "skip_ws ?s3 = skip_ws (SerializeJSON ind v @ ?r)"
    by (simp add: skip_ws_drop is_json_ws_def)
  ultimately have e: "parse_value ?s3 = Some (v, ?r)"
    using pv_cong by metis
  have f: "length ?r < length ?s"
    by (simp add: QuoteJSONString_def)
  have g: "skip_ws ?r = 0x2C # ?t"
    by (simp add: skip_ws_keep is_json_ws_def)
  have "parse_members ?t = Some (q # qs, rest)"
    using 15 by simp
  with pm_step [OF a b c d e f g] show ?case
    by (simp add: cons_result_def)
qed

lemma JSON_roundtrip: "canonical v \<Longrightarrow> JSON_parse (JSON_stringify v) = Some v"
  using rt_all(1) [of v "[]" 0] by (simp add: JSON_parse_def JSON_stringify_def num_end_def)

subsection \<open>The text written is well-formed UTF-16\<close>

lemma plain_low: "c < 0xD800 \<Longrightarrow> plain c"
  by (auto simp: plain_def is_lead_def is_trail_def word_le_nat_alt word_less_nat_alt)

lemma twf_plain_append: "list_all plain xs \<Longrightarrow> toWellFormed (xs @ s) = xs @ toWellFormed s"
  by (induction xs) (simp_all add: plain_def)

lemma plain_hexdigit: "d < 16 \<Longrightarrow> plain (hexdigit d)"
proof -
  assume "d < 16"
  then have "unat (hexdigit d) < unat (0xD800 :: 16 word)"
    by (simp add: hexdigit_unat)
  then show ?thesis
    by (intro plain_low) (simp only: word_less_nat_alt)
qed

lemma plain_UnicodeEscape: "list_all plain (UnicodeEscape c)"
proof -
  have "unat c < 65536"
    using unsigned_less [of c, where ?'a = nat] by simp
  then have "unat c div 4096 < 16" by simp
  then show ?thesis
    by (simp add: UnicodeEscape_def plain_hexdigit plain_low)
qed

lemma plain_digit: "is_digit c \<Longrightarrow> plain c"
  by (intro plain_low) (auto simp: is_digit_def word_le_nat_alt word_less_nat_alt)

lemma plain_digits: "list_all plain (digits n)"
  using digits_all [of n] by (auto simp: list_all_iff plain_digit)

lemma plain_NumberToString: "list_all plain (NumberToString i)"
  by (simp add: NumberToString_def plain_digits plain_low)

lemma plain_newline: "list_all plain (newline k)"
  by (simp add: newline_def list_all_iff plain_low)

lemma twf_QuoteChars: "toWellFormed (QuoteChars s @ t) = QuoteChars s @ toWellFormed t"
proof (induction "length s" arbitrary: s rule: less_induct)
  case less
  show ?case
  proof (cases s)
    case Nil
    then show ?thesis by simp
  next
    case (Cons c cs)
    have IH: "toWellFormed (QuoteChars cs @ t) = QuoteChars cs @ toWellFormed t"
      using less [of cs] Cons by simp
    have esc: "toWellFormed (UnicodeEscape c @ QuoteChars cs @ t)
               = UnicodeEscape c @ QuoteChars cs @ toWellFormed t"
      by (simp only: twf_plain_append [OF plain_UnicodeEscape] IH)
    have two: "toWellFormed (0x5C # e # QuoteChars cs @ t) = 0x5C # e # QuoteChars cs @ toWellFormed t"
      if "e < 0xD800" for e
      using twf_plain_append [of "[0x5C, e]" "QuoteChars cs @ t"] that IH
      by (simp add: plain_low)
    show ?thesis
    proof (cases "is_lead c \<and> cs \<noteq> [] \<and> is_trail (hd cs)")
      case True
      then obtain d ds where cs: "cs = d # ds" and d: "is_trail d"
        by (cases cs) auto
      have IH2: "toWellFormed (QuoteChars ds @ t) = QuoteChars ds @ toWellFormed t"
        using less [of ds] Cons cs by simp
      from True have "\<not> c < 0x20" "c \<noteq> 0x08" "c \<noteq> 0x09" "c \<noteq> 0x0A" "c \<noteq> 0x0C" "c \<noteq> 0x0D"
        "c \<noteq> 0x22" "c \<noteq> 0x5C"
        by (auto simp: is_lead_def word_le_nat_alt word_less_nat_alt)
      with True cs d IH2 Cons show ?thesis
        by simp
    next
      case False
      then have q: "QuoteChars (c # cs) =
         (if c = 0x08 then 0x5C # 0x62 # QuoteChars cs
          else if c = 0x09 then 0x5C # 0x74 # QuoteChars cs
          else if c = 0x0A then 0x5C # 0x6E # QuoteChars cs
          else if c = 0x0C then 0x5C # 0x66 # QuoteChars cs
          else if c = 0x0D then 0x5C # 0x72 # QuoteChars cs
          else if c = 0x22 then 0x5C # 0x22 # QuoteChars cs
          else if c = 0x5C then 0x5C # 0x5C # QuoteChars cs
          else if c < 0x20 \<or> is_lead c \<or> is_trail c then UnicodeEscape c @ QuoteChars cs
          else c # QuoteChars cs)"
        by (cases cs) auto
      have raw: "toWellFormed (c # QuoteChars cs @ t) = c # QuoteChars cs @ toWellFormed t"
        if "\<not> is_lead c" "\<not> is_trail c"
        using that IH by simp
      show ?thesis
        unfolding Cons q using esc two raw by simp
    qed
  qed
qed

lemma twf_QuoteJSONString:
  "toWellFormed (QuoteJSONString s @ t) = QuoteJSONString s @ toWellFormed t"
  using twf_plain_append [of "[0x22]" "QuoteChars s @ 0x22 # t"]
  by (simp add: QuoteJSONString_def twf_QuoteChars plain_low is_lead_def is_trail_def)

lemma twf_NumberToString:
  "toWellFormed (NumberToString i @ t) = NumberToString i @ toWellFormed t"
  by (rule twf_plain_append [OF plain_NumberToString])

lemma twf_newline: "toWellFormed (newline k @ t) = newline k @ toWellFormed t"
  by (rule twf_plain_append [OF plain_newline])

lemma twf_char: "c < 0xD800 \<Longrightarrow> toWellFormed (c # t) = c # toWellFormed t"
  using plain_low [of c] by (simp add: plain_def)

lemma twf_Serialize:
  "toWellFormed (SerializeJSON ind v @ t) = SerializeJSON ind v @ toWellFormed t"
  "toWellFormed (SerializeElements ind xs @ t) = SerializeElements ind xs @ toWellFormed t"
  "toWellFormed (SerializeMembers ind ps @ t) = SerializeMembers ind ps @ toWellFormed t"
proof (induction ind v and ind xs and ind ps arbitrary: t and t and t
       rule: SerializeJSON_SerializeElements_SerializeMembers.induct)
  case (4 ind m e)
  show ?case
    by (simp add: twf_NumberToString is_lead_def is_trail_def)
qed (simp_all add: twf_NumberToString twf_QuoteJSONString twf_newline ustr_def
       is_lead_def is_trail_def)

lemma toWellFormed_stringify: "toWellFormed (JSON_stringify v) = JSON_stringify v"
  using twf_Serialize(1) [of 0 v "[]"] by (simp add: JSON_stringify_def)

section \<open>A failed save and the cache\<close>

text \<open>
  C10. When the write fails, \<open>saveData\<close> raises \<open>SaveFailed\<close> and leaves the cached
  snapshot, its timestamp and the data file as they were; a read through the cache
  within the time to live then still returns the snapshot cached before.
\<close>

theorem save_failure_keeps_cache:
  assumes "writeFault e"
  shows "fst (saveData e data st) = Inl (JsError SaveFailed)
       \<and> memosCache (snd (saveData e data st)) = memosCache st
       \<and> cacheTimestamp (snd (saveData e data st)) = cacheTimestamp st
       \<and> dataFile (snd (saveData e data st)) = dataFile st
       \<and> (cacheEnabled e' \<and> memosCache st = Some cached \<and> cacheTimestamp st = Some ts
            \<and> ts \<noteq> 0 \<and> clock_ms e' - ts < cacheDuration e'
          \<longrightarrow> fst (loadDataWithCache e' (snd (saveData e data st))) = Inr cached)"
  using assms by (simp add: saveData_alt loadDataWithCache_def)

theorem save_failure_keeps_cache_witness:
  "writeFault (env0\<lparr>writeFault := True\<rparr>)
   \<and> fst (saveData (env0\<lparr>writeFault := True\<rparr>) [JNum 7]
            (state0\<lparr>memosCache := Some [], cacheTimestamp := Some 1704067199000\<rparr>))
       = Inl (JsError SaveFailed)
   \<and> fst (loadDataWithCache env0
            (snd (saveData (env0\<lparr>writeFault := True\<rparr>) [JNum 7]
                    (state0\<lparr>memosCache := Some [], cacheTimestamp := Some 1704067199000\<rparr>))))
       = Inr []"
  using save_failure_keeps_cache
    [of "env0\<lparr>writeFault := True\<rparr>" "[JNum 7]"
        "state0\<lparr>memosCache := Some [], cacheTimestamp := Some 1704067199000\<rparr>"
        env0 "[]" 1704067199000]
  by (simp add: env0_def state0_def)

section \<open>Loading\<close>

lemma loadData_frame [simp]:
  "dataFile (snd (loadData e st)) = dataFile st"
  "backupFile (snd (loadData e st)) = backupFile st"
  "memosCache (snd (loadData e st)) = memosCache st"
  "cacheTimestamp (snd (loadData e st)) = cacheTimestamp st"
  "lastId (snd (loadData e st)) = lastId st"
  by (simp_all add: loadData_def readFile_def split: option.splits json.splits sum.splits)

lemma loadData_stored:
  "stored st = Some xs \<Longrightarrow> dataFile st = None \<or> \<not> readFault e \<Longrightarrow> fst (loadData e st) = Inr xs"
  by (auto simp: stored_def loadData_def readFile_def split: option.splits json.splits)



text \<open>
  C2, as the code has it. \<open>loadData\<close> returns the empty array when there is no data
  file; it raises \<open>DataCorrupt\<close> when the text of the file is not JSON and
  \<open>FormatInvalid\<close> when it is JSON but not an array; and it returns the array the text
  denotes otherwise, whatever its elements are. It never changes the file. The first
  version's loader returns the empty array also for a text that is not JSON.
\<close>

theorem loadData_cases:
  "(dataFile st = None \<longrightarrow> fst (loadData e st) = Inr [])
   \<and> (dataFile st = Some data \<and> \<not> readFault e \<and> JSON_parse data = None \<longrightarrow>
        fst (loadData e st) = Inl (JsError DataCorrupt))
   \<and> (dataFile st = Some data \<and> \<not> readFault e \<and> JSON_parse data = Some v
        \<and> (\<forall>xs. v \<noteq> JArr xs) \<longrightarrow>
        fst (loadData e st) = Inl (JsError FormatInvalid))
   \<and> (dataFile st = Some data \<and> \<not> readFault e \<and> JSON_parse data = Some (JArr xs) \<longrightarrow>
        fst (loadData e st) = Inr xs)
   \<and> dataFile (snd (loadData e st)) = dataFile st
   \<and> (dataFile st = Some data \<and> JSON_parse data = None \<longrightarrow> loadData_index e st = JArr [])"
proof -
  have missing: "fst (loadData e st) = Inr []" if "dataFile st = None"
    using that by (simp add: loadData_def readFile_def)
  have corrupt: "fst (loadData e st) = Inl (JsError DataCorrupt)"
    if "dataFile st = Some data" "\<not> readFault e" "JSON_parse data = None"
    using that by (simp add: loadData_def readFile_def)
  have format: "fst (loadData e st) = Inl (JsError FormatInvalid)"
    if "dataFile st = Some data" "\<not> readFault e" "JSON_parse data = Some v" "\<forall>xs. v \<noteq> JArr xs"
    using that by (cases v) (simp_all add: loadData_def readFile_def)
  have array: "fst (loadData e st) = Inr xs"
    if "dataFile st = Some data" "\<not> readFault e" "JSON_parse data = Some (JArr xs)"
    using that by (simp add: loadData_def readFile_def)
  have first: "loadData_index e st = JArr []"
    if "dataFile st = Some data" "JSON_parse data = None"
    using that by (simp add: loadData_index_def readFile_def)
  show ?thesis
    using missing corrupt format array first by simp
qed

theorem loadData_cases_witness:
  "fst (loadData env0 state0) = Inr []
   \<and> fst (loadData env0 (state0\<lparr>dataFile := Some (ustr ''[1,'')\<rparr>)) = Inl (JsError DataCorrupt)
   \<and> fst (loadData env0 (state0\<lparr>dataFile := Some (ustr ''{}'')\<rparr>)) = Inl (JsError FormatInvalid)
   \<and> fst (loadData env0 (state0\<lparr>dataFile := Some (ustr ''[true]'')\<rparr>)) = Inr [JBool True]
   \<and> loadData_index env0 (state0\<lparr>dataFile := Some (ustr ''[1,'')\<rparr>) = JArr []"
proof -
  have p1: "JSON_parse (ustr ''[1,'') = None" by code_simp
  have p2: "JSON_parse (ustr ''{}'') = Some (JObj [])" by code_simp
  have p3: "JSON_parse (ustr ''[true]'') = Some (JArr [JBool True])" by code_simp
  have r: "\<not> readFault env0" by (simp add: env0_def)
  show ?thesis
    using loadData_cases [of state0 env0 "[]" JNull "[]"]
      loadData_cases [of "state0\<lparr>dataFile := Some (ustr ''[1,'')\<rparr>" env0 "ustr ''[1,''" JNull "[]"]
      loadData_cases [of "state0\<lparr>dataFile := Some (ustr ''{}'')\<rparr>" env0 "ustr ''{}''" "JObj []" "[]"]
      loadData_cases [of "state0\<lparr>dataFile := Some (ustr ''[true]'')\<rparr>" env0 "ustr ''[true]''"
                         "JArr [JBool True]" "[JBool True]"]
      p1 p2 p3 r
    by (simp add: state0_def)
qed

text \<open>
  C2 as stated fails: a data file holding \<open>[1]\<close> exists and is not a sequence of memo
  records, yet \<open>loadData\<close> returns its array and no error.
\<close>

theorem loadData_unchecked_elements:
  "dataFile (state0\<lparr>dataFile := Some (ustr ''[1]'')\<rparr>) = Some (ustr ''[1]'')
   \<and> fst (loadData env0 (state0\<lparr>dataFile := Some (ustr ''[1]'')\<rparr>)) = Inr [JNum 1]
   \<and> memo_of (JNum 1) = None
   \<and> Collection (state0\<lparr>dataFile := Some (ustr ''[1]'')\<rparr>) = None"
  by code_simp

section \<open>Memos as JSON objects\<close>

lemma memo_of_memo_json [simp]: "memo_of (memo_json m) = Some m"
  by (simp add: memo_json_def memo_keys_def ustr_def)

lemma memo_ofE:
  assumes "memo_of j = Some m"
  obtains kvs where "j = JObj kvs" "distinct (map fst kvs)" "set (map fst kvs) \<subseteq> set memo_keys"
    "map_of kvs (ustr ''id'') = Some (JNum (memo_id m))"
    "map_of kvs (ustr ''title'') = Some (JStr (title m))"
    "map_of kvs (ustr ''content'') = Some (JStr (content m))"
    "map_of kvs (ustr ''createdAt'') = Some (JStr (createdAt m))"
    "map_of kvs (ustr ''updatedAt'') = Some (JStr (updatedAt m))"
proof (cases j)
  case (JObj kvs)
  with assms show ?thesis
    by (intro that [of kvs])
       (auto simp: list_all_iff split: if_splits option.splits json.splits)
qed (use assms in simp_all)

lemma canonical_memo: "memo_of j = Some m \<Longrightarrow> canonical j"
proof (erule memo_ofE)
  fix kvs
  assume j: "j = JObj kvs" and d: "distinct (map fst kvs)"
    and k: "set (map fst kvs) \<subseteq> set memo_keys"
    and v: "map_of kvs (ustr ''id'') = Some (JNum (memo_id m))"
      "map_of kvs (ustr ''title'') = Some (JStr (title m))"
      "map_of kvs (ustr ''content'') = Some (JStr (content m))"
      "map_of kvs (ustr ''createdAt'') = Some (JStr (createdAt m))"
      "map_of kvs (ustr ''updatedAt'') = Some (JStr (updatedAt m))"
  have "canonical (snd p)" if "p \<in> set kvs" for p
  proof -
    from that have "(fst p, snd p) \<in> set kvs" by simp
    with d have m: "map_of kvs (fst p) = Some (snd p)"
      by (simp only: map_of_eq_Some_iff)
    from that k have "fst p \<in> set memo_keys" by auto
    then consider "fst p = ustr ''id''" | "fst p = ustr ''title''" | "fst p = ustr ''content''"
      | "fst p = ustr ''createdAt''" | "fst p = ustr ''updatedAt''"
      by (auto simp: memo_keys_def)
    then show ?thesis
    proof cases
      case 1
      with m v(1) have "snd p = JNum (memo_id m)" by simp
      then show ?thesis by simp
    next
      case 2
      with m v(2) have "snd p = JStr (title m)" by simp
      then show ?thesis by simp
    next
      case 3
      with m v(3) have "snd p = JStr (content m)" by simp
      then show ?thesis by simp
    next
      case 4
      with m v(4) have "snd p = JStr (createdAt m)" by simp
      then show ?thesis by simp
    next
      case 5
      with m v(5) have "snd p = JStr (updatedAt m)" by simp
      then show ?thesis by simp
    qed
  qed
  with j d show "canonical j" by simp
qed

lemma get_id_memo: "memo_of j = Some m \<Longrightarrow> get_id j = Inr (Some (JNum (memo_id m)))"
  by (erule memo_ofE) simp

lemma those_map_iff:
  "those (map f xs) = Some ys \<longleftrightarrow> list_all2 (\<lambda>x y. f x = Some y) xs ys"
proof (induction xs arbitrary: ys)
  case Nil
  then show ?case by auto
next
  case (Cons x xs)
  then show ?case
    by (cases ys) (auto split: option.splits)
qed

section \<open>Saving and the stored collection\<close>

lemma stored_saved:
  assumes "\<not> writeFault e" "\<forall>x \<in> set data. canonical x"
  shows "stored (snd (saveData e data st)) = Some data"
proof -
  have "canonical (JArr data)" using assms(2) by simp
  then have "JSON_parse (JSON_stringify (JArr data)) = Some (JArr data)"
    by (rule JSON_roundtrip)
  with assms(1) show ?thesis
    by (simp add: saveData_alt stored_def toWellFormed_stringify)
qed

lemma saveData_ok:
  "\<not> writeFault e \<Longrightarrow> fst (saveData e data st) = Inr ()
     \<and> memosCache (snd (saveData e data st)) = None
     \<and> cacheTimestamp (snd (saveData e data st)) = None
     \<and> lastId (snd (saveData e data st)) = lastId st"
  by (simp add: saveData_alt)

lemma saveData_failed:
  "writeFault e \<Longrightarrow> fst (saveData e data st) = Inl (JsError SaveFailed)
     \<and> dataFile (snd (saveData e data st)) = dataFile st
     \<and> lastId (snd (saveData e data st)) = lastId st"
  by (simp add: saveData_alt)

lemma Collection_def2:
  "Collection st = Some ms \<longleftrightarrow>
   (\<exists>xs. stored st = Some xs \<and> list_all2 (\<lambda>j m. memo_of j = Some m) xs ms)"
  by (auto simp: Collection_def those_map_iff split: option.splits)

lemma memos_canonical:
  "list_all2 (\<lambda>j m. memo_of j = Some m) xs ms \<Longrightarrow> \<forall>x \<in> set xs. canonical x"
  by (induction xs ms rule: list_all2_induct) (auto intro: canonical_memo)

lemma Collection_saved:
  assumes "\<not> writeFault e" "list_all2 (\<lambda>j m. memo_of j = Some m) xs ms"
  shows "Collection (snd (saveData e xs st)) = Some ms"
  using stored_saved [OF assms(1) memos_canonical [OF assms(2)]] assms(2)
  by (auto simp: Collection_def2)

lemma memos_json: "list_all2 (\<lambda>j m. memo_of j = Some m) (map memo_json c) c"
  by (simp add: list_all2_conv_all_nth)

lemma findIndex_typed:
  "list_all2 (\<lambda>j m. memo_of j = Some m) xs ms \<Longrightarrow> findIndex xs i = Inr (index_of ms i)"
proof (induction xs ms rule: list_all2_induct)
  case Nil
  then show ?case by simp
next
  case (Cons j xs m ms)
  then show ?case
    by (simp add: get_id_memo split: option.splits)
qed

lemma index_of_Some:
  "index_of ms i = Some k \<Longrightarrow> k < length ms \<and> memo_id (ms ! k) = i"
proof (induction ms arbitrary: k)
  case Nil
  then show ?case by simp
next
  case (Cons m ms)
  then show ?case
    by (auto split: if_splits option.splits)
qed

lemma index_of_None: "index_of ms i = None \<longleftrightarrow> i \<notin> memo_id ` set ms"
  by (induction ms) (auto split: option.splits)

lemma memo_of_updateMemo:
  assumes "memo_of j = Some m"
  shows "memo_of (updateMemo j ttl cnt now)
         = Some (m\<lparr>title := trim ttl, content := trim cnt, updatedAt := now\<rparr>)"
proof (rule memo_ofE [OF assms])
  fix kvs
  assume j: "j = JObj kvs" and d: "distinct (map fst kvs)"
    and k: "set (map fst kvs) \<subseteq> set memo_keys"
    and v: "map_of kvs (ustr ''id'') = Some (JNum (memo_id m))"
      "map_of kvs (ustr ''title'') = Some (JStr (title m))"
      "map_of kvs (ustr ''content'') = Some (JStr (content m))"
      "map_of kvs (ustr ''createdAt'') = Some (JStr (createdAt m))"
      "map_of kvs (ustr ''updatedAt'') = Some (JStr (updatedAt m))"
  let ?kvs = "AList.update (ustr ''updatedAt'') (JStr now)
                (AList.update (ustr ''content'') (JStr (trim cnt))
                   (AList.update (ustr ''title'') (JStr (trim ttl)) kvs))"
  have u: "updateMemo j ttl cnt now = JObj ?kvs"
    by (simp add: updateMemo_def j)
  have keys: "ustr ''title'' \<in> fst ` set kvs" "ustr ''content'' \<in> fst ` set kvs"
    "ustr ''updatedAt'' \<in> fst ` set kvs"
    using v by (auto dest!: map_of_SomeD intro: rev_image_eqI)
  have same: "map fst ?kvs = map fst kvs"
    using keys by (simp add: update_keys)
  have m: "map_of ?kvs = (map_of kvs)(ustr ''title'' \<mapsto> JStr (trim ttl),
             ustr ''content'' \<mapsto> JStr (trim cnt), ustr ''updatedAt'' \<mapsto> JStr now)"
    by (simp add: update_conv')
  have ne: "ustr ''id'' \<noteq> ustr ''title''" "ustr ''id'' \<noteq> ustr ''content''"
    "ustr ''id'' \<noteq> ustr ''updatedAt''" "ustr ''title'' \<noteq> ustr ''content''"
    "ustr ''title'' \<noteq> ustr ''updatedAt''" "ustr ''content'' \<noteq> ustr ''updatedAt''"
    "ustr ''createdAt'' \<noteq> ustr ''title''" "ustr ''createdAt'' \<noteq> ustr ''content''"
    "ustr ''createdAt'' \<noteq> ustr ''updatedAt''"
    by (simp_all add: ustr_def)
  show ?thesis
    unfolding u using d k v ne
    by (simp add: same m list_all_iff subset_iff)
qed

text \<open>
  C4. For every collection of memos \<open>c\<close>: when the write succeeds, \<open>saveData\<close> of the
  memos' objects followed by \<open>loadData\<close> (the file being readable) returns these
  objects again, and the stored collection is \<open>c\<close>, field for field.
\<close>

theorem save_load_roundtrip:
  assumes "\<not> writeFault e" "\<not> readFault e'"
  shows "fst (saveData e (map memo_json c) st) = Inr ()
       \<and> fst (loadData e' (snd (saveData e (map memo_json c) st))) = Inr (map memo_json c)
       \<and> Collection (snd (saveData e (map memo_json c) st)) = Some c"
proof -
  have "stored (snd (saveData e (map memo_json c) st)) = Some (map memo_json c)"
    using assms(1) memos_canonical [OF memos_json] by (rule stored_saved)
  then have "fst (loadData e' (snd (saveData e (map memo_json c) st))) = Inr (map memo_json c)"
    using assms(2) by (simp add: loadData_stored)
  then show ?thesis
    using assms(1) Collection_saved [OF assms(1) memos_json] by (simp add: saveData_ok)
qed

theorem save_load_roundtrip_witness:
  "\<not> writeFault env0 \<and> \<not> readFault env0
   \<and> fst (loadData env0 (snd (saveData env0
        (map memo_json [\<lparr>memo_id = 1, title = [0x8CB7, 0x3044, 0x7269], content = ustr ''milk'',
                          createdAt = clock_iso env0, updatedAt = clock_iso env0\<rparr>]) state0)))
       = Inr (map memo_json [\<lparr>memo_id = 1, title = [0x8CB7, 0x3044, 0x7269],
                               content = ustr ''milk'',
                               createdAt = clock_iso env0, updatedAt = clock_iso env0\<rparr>])
   \<and> Collection (snd (saveData env0
        (map memo_json [\<lparr>memo_id = 1, title = [0x8CB7, 0x3044, 0x7269], content = ustr ''milk'',
                          createdAt = clock_iso env0, updatedAt = clock_iso env0\<rparr>]) state0))
       = Some [\<lparr>memo_id = 1, title = [0x8CB7, 0x3044, 0x7269], content = ustr ''milk'',
                 createdAt = clock_iso env0, updatedAt = clock_iso env0\<rparr>]"
proof -
  have h: "\<not> writeFault env0" "\<not> readFault env0"
    by (simp_all add: env0_def)
  from save_load_roundtrip
      [OF h, where st = state0
         and c = "[\<lparr>memo_id = 1, title = [0x8CB7, 0x3044, 0x7269], content = ustr ''milk'',
                    createdAt = clock_iso env0, updatedAt = clock_iso env0\<rparr>]"] h
  show ?thesis
    by simp
qed

section \<open>What the handlers do to the collection\<close>

lemma loadData_typed:
  assumes "Collection st = Some ms" "dataFile st = None \<or> \<not> readFault e"
  obtains xs s1 where "loadData e st = (Inr xs, s1)"
    "list_all2 (\<lambda>j m. memo_of j = Some m) xs ms"
    "dataFile s1 = dataFile st" "lastId s1 = lastId st"
    "memosCache s1 = memosCache st" "cacheTimestamp s1 = cacheTimestamp st"
proof -
  from assms(1) obtain xs where xs: "stored st = Some xs"
    "list_all2 (\<lambda>j m. memo_of j = Some m) xs ms"
    by (auto simp: Collection_def2)
  obtain res s1 where l: "loadData e st = (res, s1)"
    by (cases "loadData e st")
  with loadData_stored [OF xs(1) assms(2)] have l': "loadData e st = (Inr xs, s1)"
    by simp
  have "dataFile s1 = dataFile st" "lastId s1 = lastId st"
    "memosCache s1 = memosCache st" "cacheTimestamp s1 = cacheTimestamp st"
    using loadData_frame [of e st] l by simp_all
  with that [OF l' xs(2)] show ?thesis by blast
qed

lemma newMemo_created:
  "newMemo (lastId st + 1) ttl cnt (clock_iso e) = memo_json (created e st ttl cnt)"
  by (simp add: newMemo_def memo_json_def created_def)



lemma errorHandler_frame [simp]:
  "fst (errorHandler err s) = Response 500 ServerErrorMessage"
  "dataFile (snd (errorHandler err s)) = dataFile s"
  "memosCache (snd (errorHandler err s)) = memosCache s"
  "cacheTimestamp (snd (errorHandler err s)) = cacheTimestamp s"
  "lastId (snd (errorHandler err s)) = lastId s"
  by (simp_all add: errorHandler_def)

lemma validationError_frame [simp]:
  "fst (validationError s) = Response 400 ValidationMessage"
  "dataFile (snd (validationError s)) = dataFile s"
  "memosCache (snd (validationError s)) = memosCache s"
  "cacheTimestamp (snd (validationError s)) = cacheTimestamp s"
  "lastId (snd (validationError s)) = lastId s"
  by (simp_all add: validationError_def)


lemma put_memo_alt:
  assumes "idParamSchema idp" "memoBodySchema ttl cnt" "loadData e st = (Inr xs, s1)"
    "findIndex xs (parseInt idp) = Inr (Some i)"
  shows "put_memo e idp ttl cnt st =
     (case saveData e (xs[i := updateMemo (xs ! i) ttl cnt (clock_iso e)]) s1 of
        (Inl err, s2) \<Rightarrow> errorHandler err s2
      | (Inr u, s2) \<Rightarrow>
          (Response 200 (Json (xs[i := updateMemo (xs ! i) ttl cnt (clock_iso e)] ! i)), s2))"
  using assms by (simp add: put_memo_def Let_def)

lemma put_ok:
  assumes "Collection st = Some ms" "dataFile st = None \<or> \<not> readFault e"
    "idParamSchema idp" "memoBodySchema ttl cnt" "index_of ms (parseInt idp) = Some i"
    "\<not> writeFault e"
  shows "(\<exists>j. fst (put_memo e idp ttl cnt st) = Response 200 (Json j)
            \<and> memo_of j = Some (updated e ttl cnt (ms ! i)))
       \<and> Collection (snd (put_memo e idp ttl cnt st)) = Some (ms[i := updated e ttl cnt (ms ! i)])
       \<and> lastId (snd (put_memo e idp ttl cnt st)) = lastId st
       \<and> memosCache (snd (put_memo e idp ttl cnt st)) = None
       \<and> cacheTimestamp (snd (put_memo e idp ttl cnt st)) = None"
proof (rule loadData_typed [OF assms(1,2)])
  fix xs s1
  assume l: "loadData e st = (Inr xs, s1)"
    and r: "list_all2 (\<lambda>j m. memo_of j = Some m) xs ms"
    and fr: "lastId s1 = lastId st"
  let ?s1 = "s1"
  let ?j = "updateMemo (xs ! i) ttl cnt (clock_iso e)"
  let ?xs = "xs[i := ?j]"
  let ?sv = "saveData e ?xs ?s1"
  from assms(5) have i: "i < length ms" by (simp add: index_of_Some)
  with r have ix: "i < length xs" by (simp add: list_all2_lengthD)
  from r i have "memo_of (xs ! i) = Some (ms ! i)" by (simp add: list_all2_conv_all_nth)
  then have j: "memo_of ?j = Some (updated e ttl cnt (ms ! i))"
    by (simp add: memo_of_updateMemo updated_def)
  have r': "list_all2 (\<lambda>j m. memo_of j = Some m) ?xs (ms[i := updated e ttl cnt (ms ! i)])"
    using r j by (simp add: list_all2_update_cong)
  have f: "findIndex xs (parseInt idp) = Inr (Some i)"
    using findIndex_typed [OF r] assms(5) by simp
  have p: "put_memo e idp ttl cnt st = (Response 200 (Json ?j), snd ?sv)"
    using put_memo_alt [OF assms(3,4) l f] saveData_ok [OF assms(6), of ?xs ?s1] ix
    by (cases ?sv) simp
  show ?thesis
    unfolding p using Collection_saved [OF assms(6) r', of ?s1] saveData_ok [OF assms(6), of ?xs ?s1] j fr
    by simp
qed


text \<open>Every outcome of a PUT or a DELETE that is not the 200: nothing but the log changes.\<close>

lemma put_frame:
  assumes "\<forall>b. fst (put_memo e idp ttl cnt st) \<noteq> Response 200 b"
  shows "dataFile (snd (put_memo e idp ttl cnt st)) = dataFile st
       \<and> memosCache (snd (put_memo e idp ttl cnt st)) = memosCache st
       \<and> cacheTimestamp (snd (put_memo e idp ttl cnt st)) = cacheTimestamp st"
proof -
  obtain res s1 where l: "loadData e st = (res, s1)" by (cases "loadData e st")
  have f: "dataFile s1 = dataFile st" "memosCache s1 = memosCache st"
    "cacheTimestamp s1 = cacheTimestamp st"
    using loadData_frame [of e st] l by simp_all
  show ?thesis
    using assms l f
    by (auto simp: put_memo_def Let_def saveData_alt
        split: if_splits sum.splits option.splits prod.splits)
qed















section \<open>The cache after a write\<close>





section \<open>Updates\<close>

lemma Collection_later_state: "Collection later_state = Some [old_memo]"
proof -
  have "canonical (JArr [memo_json old_memo])"
    using canonical_memo [OF memo_of_memo_json, of old_memo] by simp
  from JSON_roundtrip [OF this] show ?thesis
    by (simp add: later_state_def Collection_def stored_def)
qed

lemma schema_1_a_b: "idParamSchema (ustr ''1'') \<and> memoBodySchema (ustr ''a'') (ustr ''b'')
  \<and> parseInt (ustr ''1'') = 1"
  by (simp add: idParamSchema_def memoBodySchema_def title_ok_def content_ok_def ustr_def
      is_digit_def parseInt_def digits_val_def)

text \<open>
  C6, as the code has it. A PUT for an identifier the collection holds, when the write
  succeeds, changes that memo only: its identifier and creation time stay, its title
  and content are the trimmed ones of the request, and its update time is the clock's
  reading, which is not before the previous update time whenever the clock has not
  gone back behind it. The other memos, their number and their order are as before. A
  PUT that is not answered with 200 leaves the data file as it was.
\<close>

theorem update_preserves_identity:
  assumes "Collection st = Some ms" "dataFile st = None \<or> \<not> readFault e"
    "idParamSchema idp" "memoBodySchema ttl cnt" "index_of ms (parseInt idp) = Some i"
    "\<not> writeFault e"
  shows "(\<exists>j m'. fst (put_memo e idp ttl cnt st) = Response 200 (Json j)
            \<and> memo_of j = Some m'
            \<and> Collection (snd (put_memo e idp ttl cnt st)) = Some (ms[i := m'])
            \<and> memo_id m' = memo_id (ms ! i) \<and> memo_id m' = parseInt idp
            \<and> createdAt m' = createdAt (ms ! i)
            \<and> title m' = trim ttl \<and> content m' = trim cnt
            \<and> updatedAt m' = clock_iso e
            \<and> (updatedAt (ms ! i) \<le> clock_iso e \<longrightarrow> updatedAt (ms ! i) \<le> updatedAt m')
            \<and> length (ms[i := m']) = length ms
            \<and> (\<forall>k < length ms. k \<noteq> i \<longrightarrow> ms[i := m'] ! k = ms ! k))
       \<and> (\<forall>e2 idp2 ttl2 cnt2.
             (\<forall>b. fst (put_memo e2 idp2 ttl2 cnt2 st) \<noteq> Response 200 b) \<longrightarrow>
             Collection (snd (put_memo e2 idp2 ttl2 cnt2 st)) = Some ms)"
proof -
  note r = put_ok [OF assms]
  from r obtain j where j: "fst (put_memo e idp ttl cnt st) = Response 200 (Json j)"
    "memo_of j = Some (updated e ttl cnt (ms ! i))"
    by blast
  have id: "memo_id (ms ! i) = parseInt idp"
    using index_of_Some [OF assms(5)] by simp
  have a: "\<exists>j m'. fst (put_memo e idp ttl cnt st) = Response 200 (Json j)
            \<and> memo_of j = Some m'
            \<and> Collection (snd (put_memo e idp ttl cnt st)) = Some (ms[i := m'])
            \<and> memo_id m' = memo_id (ms ! i) \<and> memo_id m' = parseInt idp
            \<and> createdAt m' = createdAt (ms ! i)
            \<and> title m' = trim ttl \<and> content m' = trim cnt
            \<and> updatedAt m' = clock_iso e
            \<and> (updatedAt (ms ! i) \<le> clock_iso e \<longrightarrow> updatedAt (ms ! i) \<le> updatedAt m')
            \<and> length (ms[i := m']) = length ms
            \<and> (\<forall>k < length ms. k \<noteq> i \<longrightarrow> ms[i := m'] ! k = ms ! k)"
    using j r id
    by (intro exI [of _ j] exI [of _ "updated e ttl cnt (ms ! i)"]) (simp add: updated_def)
  have b: "Collection (snd (put_memo e2 idp2 ttl2 cnt2 st)) = Some ms"
    if "\<forall>b. fst (put_memo e2 idp2 ttl2 cnt2 st) \<noteq> Response 200 b" for e2 idp2 ttl2 cnt2
    using put_frame [OF that] assms(1) Collection_cong [of "snd (put_memo e2 idp2 ttl2 cnt2 st)" st]
    by simp
  from a b show ?thesis by blast
qed

theorem update_preserves_identity_witness:
  "Collection later_state = Some [old_memo]
   \<and> index_of [old_memo] (parseInt (ustr ''1'')) = Some 0
   \<and> Collection (snd (put_memo (env0\<lparr>clock_iso := ustr ''2025-07-01T00:00:00.000Z''\<rparr>)
                         (ustr ''1'') (ustr ''a'') (ustr ''b'') later_state))
       = Some [old_memo\<lparr>title := ustr ''a'', content := ustr ''b'',
                        updatedAt := ustr ''2025-07-01T00:00:00.000Z''\<rparr>]"
proof -
  let ?e = "env0\<lparr>clock_iso := ustr ''2025-07-01T00:00:00.000Z''\<rparr>"
  have i: "index_of [old_memo] (parseInt (ustr ''1'')) = Some 0"
    using schema_1_a_b by (simp add: old_memo_def)
  have w: "dataFile later_state = None \<or> \<not> readFault ?e" "\<not> writeFault ?e"
    by (simp_all add: env0_def)
  have t: "trim (ustr ''a'') = ustr ''a''" "trim (ustr ''b'') = ustr ''b''"
    by (simp_all add: trim_def ustr_def is_white_space_def)
  from update_preserves_identity
    [OF Collection_later_state w(1) conjunct1 [OF schema_1_a_b]
        conjunct1 [OF conjunct2 [OF schema_1_a_b]] i w(2)]
  obtain j m' where
    "fst (put_memo ?e (ustr ''1'') (ustr ''a'') (ustr ''b'') later_state) = Response 200 (Json j)"
    "Collection (snd (put_memo ?e (ustr ''1'') (ustr ''a'') (ustr ''b'') later_state))
       = Some ([old_memo][0 := m'])"
    "memo_id m' = memo_id ([old_memo] ! 0)" "createdAt m' = createdAt ([old_memo] ! 0)"
    "title m' = trim (ustr ''a'')" "content m' = trim (ustr ''b'')" "updatedAt m' = clock_iso ?e"
    by blast
  then show ?thesis
    using i t Collection_later_state
    by (cases m') (simp add: old_memo_def)
qed

text \<open>
  C6 as stated fails for the update time: with a stored update time of June 2025 and a
  clock that reads January 2024, the PUT succeeds and the update time goes back.
\<close>

theorem update_time_can_go_back:
  "Collection later_state = Some [old_memo]
   \<and> Collection (snd (put_memo env0 (ustr ''1'') (ustr ''a'') (ustr ''b'') later_state))
       = Some [old_memo\<lparr>title := ustr ''a'', content := ustr ''b'',
                        updatedAt := ustr ''2024-01-01T00:00:00.000Z''\<rparr>]
   \<and> \<not> (updatedAt old_memo \<le> ustr ''2024-01-01T00:00:00.000Z'')"
proof -
  have i: "index_of [old_memo] (parseInt (ustr ''1'')) = Some 0"
    using schema_1_a_b by (simp add: old_memo_def)
  have w: "dataFile later_state = None \<or> \<not> readFault env0" "\<not> writeFault env0"
    by (simp_all add: env0_def)
  have t: "trim (ustr ''a'') = ustr ''a''" "trim (ustr ''b'') = ustr ''b''"
    by (simp_all add: trim_def ustr_def is_white_space_def)
  have c: "clock_iso env0 = ustr ''2024-01-01T00:00:00.000Z''"
    by (simp add: env0_def)
  from put_ok [OF Collection_later_state w(1) conjunct1 [OF schema_1_a_b]
        conjunct1 [OF conjunct2 [OF schema_1_a_b]] i w(2)]
  have "Collection (snd (put_memo env0 (ustr ''1'') (ustr ''a'') (ustr ''b'') later_state))
       = Some [old_memo\<lparr>title := ustr ''a'', content := ustr ''b'',
                        updatedAt := ustr ''2024-01-01T00:00:00.000Z''\<rparr>]"
    by (simp add: updated_def t c)
  moreover have "\<not> (updatedAt old_memo \<le> ustr ''2024-01-01T00:00:00.000Z'')"
    by (simp add: old_memo_def ustr_def)
  ultimately show ?thesis
    using Collection_later_state by simp
qed

section \<open>The invariant of the store\<close>















section \<open>Sequences of requests\<close>























section \<open>The identifier allocator\<close>




section \<open>Distinct identifiers\<close>



section \<open>The backup\<close>

text \<open>
  C9. With the backup enabled, \<open>saveData\<close> succeeds exactly when the write does,
  whatever happens to the copy. When the copy fails (there is no data file yet, or the
  file system refuses), the failure is logged as a warning, the backup file is left
  alone, and a write that succeeds stores the new collection. When the copy succeeds,
  the backup holds the text the data file had before the write.
\<close>

theorem backup_failure_never_blocks_save:
  assumes "backupEnabled e"
  shows "(fst (saveData e data st) = Inr ()) = (\<not> writeFault e)
       \<and> (dataFile st = None \<or> copyFault e \<longrightarrow>
            (Warn, BackupFailed) \<in> set (logged (snd (saveData e data st)))
          \<and> backupFile (snd (saveData e data st)) = backupFile st
          \<and> (\<not> writeFault e \<longrightarrow>
               fst (saveData e data st) = Inr ()
             \<and> dataFile (snd (saveData e data st))
                 = Some (toWellFormed (JSON_stringify (JArr data)))))
       \<and> (\<forall>old. dataFile st = Some old \<and> \<not> copyFault e \<longrightarrow>
            backupFile (snd (saveData e data st)) = Some old)"
  using assms
  by (auto simp: saveData_alt backup_step_def copyFile_def split: option.splits)

theorem backup_failure_never_blocks_save_witness:
  "backupEnabled (env0\<lparr>backupEnabled := True, copyFault := True\<rparr>)
   \<and> fst (saveData (env0\<lparr>backupEnabled := True, copyFault := True\<rparr>) []
            (state0\<lparr>dataFile := Some (ustr ''[1]'')\<rparr>)) = Inr ()
   \<and> (Warn, BackupFailed)
       \<in> set (logged (snd (saveData (env0\<lparr>backupEnabled := True, copyFault := True\<rparr>) []
                             (state0\<lparr>dataFile := Some (ustr ''[1]'')\<rparr>))))
   \<and> dataFile (snd (saveData (env0\<lparr>backupEnabled := True, copyFault := True\<rparr>) []
                     (state0\<lparr>dataFile := Some (ustr ''[1]'')\<rparr>)))
       = Some (ustr ''[]'')
   \<and> backupFile (snd (saveData (env0\<lparr>backupEnabled := True\<rparr>) []
                       (state0\<lparr>dataFile := Some (ustr ''[1]'')\<rparr>)))
       = Some (ustr ''[1]'')"
proof -
  have t: "toWellFormed (JSON_stringify (JArr [])) = ustr ''[]''"
    by code_simp
  show ?thesis
    using backup_failure_never_blocks_save
        [of "env0\<lparr>backupEnabled := True, copyFault := True\<rparr>" "[]"
            "state0\<lparr>dataFile := Some (ustr ''[1]'')\<rparr>"]
      backup_failure_never_blocks_save
        [of "env0\<lparr>backupEnabled := True\<rparr>" "[]" "state0\<lparr>dataFile := Some (ustr ''[1]'')\<rparr>"]
      t
    by (simp add: env0_def state0_def)
qed

section \<open>Validation\<close>










text \<open>
  C8 fails on the code. A title that is one space passes \<open>memoBodySchema\<close> (its length
  is 1), the handler trims it, and the memo is stored and returned with the empty
  title; the same happens with the ideographic space U+3000, and with a PUT, which
  replaces the title of a stored memo by the empty string. The first version's own
  test rejects such a title.
\<close>

theorem whitespace_title_stored_empty:
  "memoBodySchema [0x20] (ustr ''x'')
   \<and> fst (post_memos env0 [0x20] (ustr ''x'') state0)
       = Response 201 (Json (memo_json \<lparr>memo_id = 1, title = [], content = ustr ''x'',
            createdAt = clock_iso env0, updatedAt = clock_iso env0\<rparr>))
   \<and> Collection (snd (post_memos env0 [0x20] (ustr ''x'') state0))
       = Some [\<lparr>memo_id = 1, title = [], content = ustr ''x'',
                createdAt = clock_iso env0, updatedAt = clock_iso env0\<rparr>]
   \<and> memoBodySchema [0x3000] (ustr ''x'')
   \<and> trim [0x3000] = []
   \<and> idParamSchema (ustr ''1'')
   \<and> Collection later_state = Some [old_memo]
   \<and> Collection (snd (put_memo env0 (ustr ''1'') [0x20] (ustr ''x'') later_state))
       = Some [old_memo\<lparr>title := [], content := ustr ''x'', updatedAt := clock_iso env0\<rparr>]
   \<and> missing_index [0x20]"
  by code_simp

end
